theory Spec2Isabelle
  imports Main "HOL-Library.Word"
begin

unbundle bit_operations_syntax

section \<open>Shared data model\<close>

type_synonym u8 = "8 word"
type_synonym u32 = "32 word"

section \<open>imdchk: final exit code (imdchk.c, main)\<close>

text \<open>
  The two structures that \<open>main\<close> hands to and receives from \<open>imdchk_check_file\<close>.
  Only the fields that \<open>main\<close> and \<open>report_results\<close> read are kept.
\<close>

record ImdChkOptions =
  error_mask :: u32
  max_allowed_cyl :: int
  required_head :: int
  max_allowed_sectors :: int

record ImdChkResults =
  check_failures_mask :: u32
  track_read_count :: int

text \<open>The bit of the cylinder-sequence check, as the usage text of \<open>print_usage\<close> lists it
  (\<open>0x0080: Cyl Sequence Dec\<close>).\<close>

definition CHECK_BIT_SEQ_CYL_DEC :: u32 where
  "CHECK_BIT_SEQ_CYL_DEC = 0x0080"

text \<open>The final result line printed by \<open>main\<close> (nothing in quiet mode).\<close>

datatype result_line = Result_FAIL | Result_OK_masked | Result_OK_passed | Result_quiet

text \<open>
  \<open>main\<close> from the call of \<open>imdchk_check_file\<close> on (lines 274 to 312). The status of the
  library call is an input. \<open>final_exit_code\<close> starts at 0; the conditional around the
  assignment \<open>final_exit_code = 1\<close> is commented out in the source, so the assignment is
  executed on every run that gets this far.
\<close>

definition imdchk_main_tail ::
  "bool \<Rightarrow> int \<Rightarrow> ImdChkOptions \<Rightarrow> ImdChkResults \<Rightarrow> int \<times> result_line" where
  "imdchk_main_tail g_quiet_mode check_status g_options results =
     (if check_status \<noteq> 0 then (- 1, Result_quiet)
      else
        (let final_exit_code = (0 :: int);
             final_exit_code = (1 :: int)
         in (final_exit_code,
             if \<not> g_quiet_mode then
               (if final_exit_code \<noteq> 0 then Result_FAIL
                else if check_failures_mask results \<noteq> 0 then Result_OK_masked
                else Result_OK_passed)
             else Result_quiet)))"

section \<open>Mode numbering: rate classes and encodings (imda.c, imdu.c)\<close>

text \<open>The two lookup tables of imdu.c.\<close>

definition MODE_TO_RATE_CODE :: "int list" where
  "MODE_TO_RATE_CODE = [5, 3, 2, 5, 3, 2]"

definition MODE_RATES :: "int list" where
  "MODE_RATES = [500, 300, 250, 500, 300, 250]"

definition LIBIMD_NUM_MODES :: nat where
  "LIBIMD_NUM_MODES = 6"

text \<open>imda.c, the track loop: \<open>switch (track_info.mode % 3)\<close> sets one bit of
  \<open>modes_used\<close>. The mode byte is promoted to \<open>int\<close> before the remainder is taken.\<close>

definition mode_class :: "u8 \<Rightarrow> nat" where
  "mode_class m = unat m mod 3"

definition track_modes_used :: "u8 \<Rightarrow> u8 \<Rightarrow> u8" where
  "track_modes_used m modes_used =
     (if mode_class m = 0 then modes_used OR 1
      else if mode_class m = 1 then modes_used OR 2
      else if mode_class m = 2 then modes_used OR 4
      else modes_used)"

text \<open>imda.c, the summary: the rates printed for a \<open>modes_used\<close> mask, in the order of the
  three \<open>printf\<close> calls.\<close>

definition data_rates_used :: "u8 \<Rightarrow> int list" where
  "data_rates_used modes_used =
     (if modes_used AND 4 \<noteq> 0 then [250] else []) @
     (if modes_used AND 2 \<noteq> 0 then [300] else []) @
     (if modes_used AND 1 \<noteq> 0 then [500] else [])"

text \<open>imdu.c, the per-track format line: \<open>mode > 2 ? "MFM" : "FM"\<close>.\<close>

datatype encoding = FM | MFM

definition mode_encoding :: "u8 \<Rightarrow> encoding" where
  "mode_encoding m = (if m > 2 then MFM else FM)"

section \<open>imdu: rate translation option (imdu.c, parse_args, case 'T')\<close>

text \<open>
  The option \<open>-T<rate>=<rate>\<close>, after both numbers have been parsed. The test on a rate
  code and a rate in kbps is written twice in the source, once for the source rate and once
  for the target rate.
\<close>

definition rate_code_matches :: "int \<Rightarrow> nat \<Rightarrow> bool" where
  "rate_code_matches rate_code rate \<longleftrightarrow>
     (rate_code = 2 \<and> rate = 250) \<or> (rate_code = 3 \<and> rate = 300) \<or> (rate_code = 5 \<and> rate = 500)"

text \<open>The side test of the inner loop: \<open>(i < 3 && j < 3) || (i >= 3 && j >= 3)\<close>.\<close>

definition same_fm_mfm_side :: "nat \<Rightarrow> nat \<Rightarrow> bool" where
  "same_fm_mfm_side i j \<longleftrightarrow> (i < 3 \<and> j < 3) \<or> (i \<ge> 3 \<and> j \<ge> 3)"

text \<open>The inner loop over \<open>j\<close>: the first target mode with the requested rate on the side
  of mode \<open>i\<close>; \<open>None\<close> when the loop ends with \<open>mode_to\<close> still \<open>-1\<close>.\<close>

fun find_mode_to :: "nat \<Rightarrow> nat \<Rightarrow> nat list \<Rightarrow> nat option" where
  "find_mode_to i rate_to [] = None"
| "find_mode_to i rate_to (j # js) =
     (if rate_code_matches (MODE_TO_RATE_CODE ! j) rate_to \<and> same_fm_mfm_side i j
      then Some j
      else find_mode_to i rate_to js)"

text \<open>The outer loop over \<open>i\<close>. It stops at the first mode whose rate is the source rate,
  whether or not a target was found. The result is \<open>mode_from\<close>, \<open>mode_to\<close> (each
  \<open>-1\<close> when not found) and the translation table.\<close>

fun translate_modes :: "nat \<Rightarrow> nat \<Rightarrow> u8 list \<Rightarrow> nat list \<Rightarrow> int \<times> int \<times> u8 list" where
  "translate_modes rate_from rate_to tmode [] = (- 1, - 1, tmode)"
| "translate_modes rate_from rate_to tmode (i # is) =
     (if rate_code_matches (MODE_TO_RATE_CODE ! i) rate_from then
        (case find_mode_to i rate_to [0 ..< LIBIMD_NUM_MODES] of
           Some j \<Rightarrow> (int i, int j, tmode[i := of_nat j])
         | None \<Rightarrow> (int i, - 1, tmode))
      else translate_modes rate_from rate_to tmode is)"

definition parse_T_option :: "nat \<Rightarrow> nat \<Rightarrow> u8 list \<Rightarrow> int \<times> int \<times> u8 list" where
  "parse_T_option rate_from rate_to tmode =
     translate_modes rate_from rate_to tmode [0 ..< LIBIMD_NUM_MODES]"

section \<open>Tracks and sector status values\<close>

text \<open>
  Modelled from the spec: the structure \<open>ImdTrackInfo\<close> is declared in libimd.h, which is
  not among the sources. The fields are the ones the tools read and write, with the types
  their uses show: the header bytes and the sector count are single bytes, the four maps
  are arrays of \<open>LIBIMD_MAX_SECTORS_PER_TRACK\<close> bytes of which the first \<open>num_sectors\<close> are
  meaningful, \<open>data\<close> is a pointer that may be null (\<open>None\<close>), \<open>data_size\<close> a \<open>size_t\<close>.
\<close>

record ImdTrackInfo =
  mode :: u8
  cyl :: u8
  head :: u8
  hflag :: u8
  num_sectors :: u8
  sector_size_code :: u8
  sector_size :: u32
  smap :: "u8 list"
  cmap :: "u8 list"
  hmap :: "u8 list"
  sflag :: "u8 list"
  data :: "u8 list option"
  data_size :: nat
  loaded :: bool

text \<open>
  Modelled from the spec: the sector status values and the four tests on them are macros
  of libimd.h. The values follow the numbering of the track grammar (section 6): 0
  unavailable, 1 normal, 2 compressed, 3 normal with deleted mark, 4 compressed with
  deleted mark, 5 normal with error, 6 compressed with error, 7 normal with deleted mark
  and error, 8 compressed with deleted mark and error.
\<close>

definition IMD_SDR_UNAVAILABLE :: u8 where "IMD_SDR_UNAVAILABLE = 0"
definition IMD_SDR_NORMAL :: u8 where "IMD_SDR_NORMAL = 1"
definition IMD_SDR_COMPRESSED :: u8 where "IMD_SDR_COMPRESSED = 2"
definition IMD_SDR_NORMAL_DAM :: u8 where "IMD_SDR_NORMAL_DAM = 3"
definition IMD_SDR_COMPRESSED_DAM :: u8 where "IMD_SDR_COMPRESSED_DAM = 4"
definition IMD_SDR_NORMAL_ERR :: u8 where "IMD_SDR_NORMAL_ERR = 5"
definition IMD_SDR_COMPRESSED_ERR :: u8 where "IMD_SDR_COMPRESSED_ERR = 6"
definition IMD_SDR_DELETED_ERR :: u8 where "IMD_SDR_DELETED_ERR = 7"
definition IMD_SDR_COMPRESSED_DEL_ERR :: u8 where "IMD_SDR_COMPRESSED_DEL_ERR = 8"

definition IMD_SDR_HAS_DATA :: "u8 \<Rightarrow> bool" where
  "IMD_SDR_HAS_DATA f \<longleftrightarrow> f \<noteq> IMD_SDR_UNAVAILABLE"

definition IMD_SDR_IS_COMPRESSED :: "u8 \<Rightarrow> bool" where
  "IMD_SDR_IS_COMPRESSED f \<longleftrightarrow>
     f = IMD_SDR_COMPRESSED \<or> f = IMD_SDR_COMPRESSED_DAM \<or> f = IMD_SDR_COMPRESSED_ERR
     \<or> f = IMD_SDR_COMPRESSED_DEL_ERR"

definition IMD_SDR_HAS_DAM :: "u8 \<Rightarrow> bool" where
  "IMD_SDR_HAS_DAM f \<longleftrightarrow>
     f = IMD_SDR_NORMAL_DAM \<or> f = IMD_SDR_COMPRESSED_DAM \<or> f = IMD_SDR_DELETED_ERR
     \<or> f = IMD_SDR_COMPRESSED_DEL_ERR"

definition IMD_SDR_HAS_ERR :: "u8 \<Rightarrow> bool" where
  "IMD_SDR_HAS_ERR f \<longleftrightarrow>
     f = IMD_SDR_NORMAL_ERR \<or> f = IMD_SDR_COMPRESSED_ERR \<or> f = IMD_SDR_DELETED_ERR
     \<or> f = IMD_SDR_COMPRESSED_DEL_ERR"

text \<open>The two map-presence bits of the head byte (section 6: bit 7 cylinder map, bit 6 head
  map); the macros themselves are in libimd.h.\<close>

definition IMD_HFLAG_CMAP_PRES :: u8 where "IMD_HFLAG_CMAP_PRES = 0x80"
definition IMD_HFLAG_HMAP_PRES :: u8 where "IMD_HFLAG_HMAP_PRES = 0x40"

text \<open>The three compression modes that the tools store in \<open>compression_mode\<close>.\<close>

datatype compression_mode =
  IMD_COMPRESSION_AS_READ | IMD_COMPRESSION_FORCE_COMPRESS | IMD_COMPRESSION_FORCE_DECOMPRESS

text \<open>The write options that imdu fills in before the track loop (\<open>ImdWriteOpts\<close>).\<close>

record ImdWriteOpts =
  compression_mode :: compression_mode
  force_non_bad :: bool
  force_non_deleted :: bool
  tmode :: "u8 list"
  interleave_factor :: int

text \<open>
  Modelled from the spec: \<open>imd_is_uniform\<close> is a function of libimd.c. It tells whether
  every byte of a sector is identical and reports that byte. imdu calls it only with a
  positive size.
\<close>

fun imd_is_uniform :: "u8 list \<Rightarrow> bool \<times> u8" where
  "imd_is_uniform [] = (False, 0)"
| "imd_is_uniform (b # bs) = (list_all (\<lambda>x. x = b) bs, b)"

section \<open>imdu: the status flag of a written sector (imdu.c, main, statistics block)\<close>

text \<open>The bytes of sector slot \<open>i\<close> in the track buffer:
  \<open>data + i * sector_size\<close>, \<open>sector_size\<close> bytes.\<close>

definition sector_bytes :: "ImdTrackInfo \<Rightarrow> nat \<Rightarrow> u8 list" where
  "sector_bytes t i =
     (case data t of
        None \<Rightarrow> []
      | Some d \<Rightarrow> take (unat (sector_size t)) (drop (i * unat (sector_size t)) d))"

text \<open>\<open>is_uniform_sector\<close>: 0 unless the buffer exists, the sector size is positive and the
  buffer reaches the end of slot \<open>i\<close>.\<close>

definition is_uniform_sector :: "ImdTrackInfo \<Rightarrow> nat \<Rightarrow> bool" where
  "is_uniform_sector t i =
     (if data t \<noteq> None \<and> sector_size t > 0 \<and> data_size t \<ge> (i + 1) * unat (sector_size t)
      then fst (imd_is_uniform (sector_bytes t i))
      else False)"

text \<open>The body of the loop over the sector slots: \<open>final_sflag[i]\<close>.\<close>

definition final_sflag_at :: "ImdWriteOpts \<Rightarrow> ImdTrackInfo \<Rightarrow> nat \<Rightarrow> u8" where
  "final_sflag_at write_opts t i =
     (let original_flag = sflag t ! i in
      if \<not> IMD_SDR_HAS_DATA original_flag then IMD_SDR_UNAVAILABLE
      else
        (let target_base_type =
               (case compression_mode write_opts of
                  IMD_COMPRESSION_FORCE_COMPRESS \<Rightarrow>
                    (if is_uniform_sector t i then IMD_SDR_COMPRESSED else IMD_SDR_NORMAL)
                | IMD_COMPRESSION_FORCE_DECOMPRESS \<Rightarrow> IMD_SDR_NORMAL
                | IMD_COMPRESSION_AS_READ \<Rightarrow>
                    (if IMD_SDR_IS_COMPRESSED original_flag
                     then (if is_uniform_sector t i then IMD_SDR_COMPRESSED else IMD_SDR_NORMAL)
                     else IMD_SDR_NORMAL));
             target_has_dam = (IMD_SDR_HAS_DAM original_flag \<and> \<not> force_non_deleted write_opts);
             target_has_err = (IMD_SDR_HAS_ERR original_flag \<and> \<not> force_non_bad write_opts)
         in if target_base_type = IMD_SDR_NORMAL then
              (if target_has_dam \<and> target_has_err then IMD_SDR_DELETED_ERR
               else if target_has_err then IMD_SDR_NORMAL_ERR
               else if target_has_dam then IMD_SDR_NORMAL_DAM
               else IMD_SDR_NORMAL)
            else
              (if target_has_dam \<and> target_has_err then IMD_SDR_COMPRESSED_DEL_ERR
               else if target_has_err then IMD_SDR_COMPRESSED_ERR
               else if target_has_dam then IMD_SDR_COMPRESSED_DAM
               else IMD_SDR_COMPRESSED)))"

text \<open>The whole loop: one final flag for each of the \<open>num_sectors\<close> slots.\<close>

definition final_sflag :: "ImdWriteOpts \<Rightarrow> ImdTrackInfo \<Rightarrow> u8 list" where
  "final_sflag write_opts t = map (final_sflag_at write_opts t) [0 ..< unat (num_sectors t)]"

section \<open>Sector codec\<close>

text \<open>
  Modelled from the spec: the writer and the reader of sector payloads
  (\<open>imd_write_track_imd\<close> and \<open>imd_load_track\<close> of libimd.c) are not among the sources.
  Section 4.1 of the specification gives their contract. Encoding: when the policy allows
  compression and every byte is identical, the one-byte compressed form with that byte;
  otherwise the full-size normal form. Preserve-as-read allows compression only for a
  sector whose original flag was compressed, force-compress for every sector, and
  force-decompress for none. The first component of the result tells whether the
  compressed form was chosen.
\<close>

definition encode_sector :: "u8 list \<Rightarrow> compression_mode \<Rightarrow> u8 \<Rightarrow> bool \<times> u8 list" where
  "encode_sector bytes policy original_flag =
     (let allowed =
            (case policy of
               IMD_COMPRESSION_FORCE_COMPRESS \<Rightarrow> True
             | IMD_COMPRESSION_FORCE_DECOMPRESS \<Rightarrow> False
             | IMD_COMPRESSION_AS_READ \<Rightarrow> IMD_SDR_IS_COMPRESSED original_flag)
      in if allowed \<and> fst (imd_is_uniform bytes) then (True, [snd (imd_is_uniform bytes)])
         else (False, bytes))"

text \<open>
  Modelled from the spec: the value of a sector flag, from what it says. Section 6 of the
  specification numbers the values: 1 for normal data, one more for the compressed form,
  two more for the deleted mark and four more for the error marker. These are the values
  that imdu.c assigns to \<open>final_sflag[i]\<close> above.
\<close>

definition sector_flag_value :: "bool \<Rightarrow> bool \<Rightarrow> bool \<Rightarrow> u8" where
  "sector_flag_value compressed has_dam has_err =
     (if has_dam \<and> has_err then
        (if compressed then IMD_SDR_COMPRESSED_DEL_ERR else IMD_SDR_DELETED_ERR)
      else if has_err then
        (if compressed then IMD_SDR_COMPRESSED_ERR else IMD_SDR_NORMAL_ERR)
      else if has_dam then
        (if compressed then IMD_SDR_COMPRESSED_DAM else IMD_SDR_NORMAL_DAM)
      else
        (if compressed then IMD_SDR_COMPRESSED else IMD_SDR_NORMAL))"

text \<open>
  Modelled from the spec: the flag and the payload that the track writer emits for one
  sector (\<open>imd_write_track_imd\<close> of libimd.c, which is not among the sources).
  Section 4.2 of the specification: each sector is re-encoded by the sector codec under
  the compression policy, and the deleted-mark and error markers of its flag are kept
  unless \<open>force_non_deleted\<close> or \<open>force_non_bad\<close> clears them. A sector without data is
  written as unavailable, with no payload (section 6). imdu.c repeats this decision after
  the call of the writer, for its statistics; that is \<open>final_sflag_at\<close> above.
\<close>

definition write_sector :: "ImdWriteOpts \<Rightarrow> u8 \<Rightarrow> u8 list \<Rightarrow> u8 \<times> u8 list" where
  "write_sector write_opts original_flag bytes =
     (if \<not> IMD_SDR_HAS_DATA original_flag then (IMD_SDR_UNAVAILABLE, [])
      else
        (case encode_sector bytes (compression_mode write_opts) original_flag of
           (compressed, payload) \<Rightarrow>
             (sector_flag_value compressed
                (IMD_SDR_HAS_DAM original_flag \<and> \<not> force_non_deleted write_opts)
                (IMD_SDR_HAS_ERR original_flag \<and> \<not> force_non_bad write_opts),
              payload)))"

text \<open>
  Modelled from the spec: what the writer emits for slot \<open>i\<close> of a track, from the
  original flag of the slot and the bytes of the slot in the track buffer.
\<close>

definition write_track_sector :: "ImdWriteOpts \<Rightarrow> ImdTrackInfo \<Rightarrow> nat \<Rightarrow> u8 \<times> u8 list" where
  "write_track_sector write_opts t i = write_sector write_opts (sflag t ! i) (sector_bytes t i)"

text \<open>
  Modelled from the spec (section 4.1), decoding: a compressed flag needs a payload of
  exactly one byte, repeated \<open>sector_size\<close> times; an unavailable flag gives \<open>sector_size\<close>
  fill bytes; any other flag needs exactly \<open>sector_size\<close> bytes, copied. A payload whose
  length does not fit the flag is a format error.
\<close>

datatype codec_error = FormatError

definition decode_sector :: "u8 \<Rightarrow> u8 list \<Rightarrow> nat \<Rightarrow> u8 \<Rightarrow> codec_error + u8 list" where
  "decode_sector flag payload sector_sz fill_byte =
     (if IMD_SDR_IS_COMPRESSED flag then
        (case payload of [b] \<Rightarrow> Inr (replicate sector_sz b) | _ \<Rightarrow> Inl FormatError)
      else if \<not> IMD_SDR_HAS_DATA flag then Inr (replicate sector_sz fill_byte)
      else if length payload = sector_sz then Inr payload
      else Inl FormatError)"

text \<open>
  A track of three sectors of 128 bytes, used to evaluate the definitions: slot 0 is read
  as normal and holds 128 bytes \<open>0xAA\<close>, slot 1 is read as compressed and holds 128 bytes
  \<open>0xBB\<close>, slot 2 is read as normal with deleted mark and error and holds bytes that are
  not all equal.
\<close>

definition example_track :: ImdTrackInfo where
  "example_track =
     \<lparr>mode = 0, cyl = 0, head = 0, hflag = 0, num_sectors = 3, sector_size_code = 0,
      sector_size = 128,
      smap = [1, 2, 3] @ replicate 253 0, cmap = replicate 256 0, hmap = replicate 256 0,
      sflag = [1, 2, 7] @ replicate 253 0,
      data = Some (replicate 128 0xAA @ replicate 128 0xBB @ (0x01 # replicate 127 0xCC)),
      data_size = 384, loaded = True\<rparr>"

definition example_write_opts :: "compression_mode \<Rightarrow> bool \<Rightarrow> bool \<Rightarrow> ImdWriteOpts" where
  "example_write_opts cm nb nd =
     \<lparr>compression_mode = cm, force_non_bad = nb, force_non_deleted = nd,
      tmode = [0, 1, 2, 3, 4, 5], interleave_factor = 0\<rparr>"

section \<open>Track streams\<close>

text \<open>
  Modelled from the spec: \<open>imd_load_track\<close> is a function of libimd.c. An input stream
  positioned at a track boundary is a list of track records, each either a well-formed
  track or a malformed one; the end of the list is the end of the file. The function
  returns 0 at a clean end of file, a negative status for a malformed record, and a
  positive status together with the loaded track (its \<open>loaded\<close> field set) otherwise.
\<close>

datatype track_record = Track ImdTrackInfo | Malformed

type_synonym track_stream = "track_record list"

fun imd_load_track :: "track_stream \<Rightarrow> int \<times> ImdTrackInfo option \<times> track_stream" where
  "imd_load_track [] = (0, None, [])"
| "imd_load_track (Track t # rest) = (1, Some (t\<lparr>loaded := True\<rparr>), rest)"
| "imd_load_track (Malformed # rest) = (- 1, None, rest)"

text \<open>The track structure after \<open>memset(&track, 0, sizeof(ImdTrackInfo))\<close>; the maps are
  arrays of \<open>n\<close> zero bytes.\<close>

definition zero_track :: "nat \<Rightarrow> ImdTrackInfo" where
  "zero_track n =
     \<lparr>mode = 0, cyl = 0, head = 0, hflag = 0, num_sectors = 0, sector_size_code = 0,
      sector_size = 0, smap = replicate n 0, cmap = replicate n 0, hmap = replicate n 0,
      sflag = replicate n 0, data = None, data_size = 0, loaded = False\<rparr>"

section \<open>imdcmp: track comparison loop and exit code (imdcmp.c, main)\<close>

definition EXIT_MATCH :: int where "EXIT_MATCH = 0"
definition EXIT_DIFF :: int where "EXIT_DIFF = 1"
definition EXIT_DIFF_COMPRESS :: int where "EXIT_DIFF_COMPRESS = 2"
definition EXIT_DIFF_INTERLEAVE :: int where "EXIT_DIFF_INTERLEAVE = 3"
definition EXIT_USAGE_ERROR :: int where "EXIT_USAGE_ERROR = 4"
definition EXIT_FILE_ERROR :: int where "EXIT_FILE_ERROR = 5"

definition C_DIFF_NONE :: u32 where "C_DIFF_NONE = 0x000"
definition C_DIFF_HEADER :: u32 where "C_DIFF_HEADER = 0x001"
definition C_DIFF_COMMENT :: u32 where "C_DIFF_COMMENT = 0x002"
definition C_DIFF_TRACK_HDR :: u32 where "C_DIFF_TRACK_HDR = 0x004"
definition C_DIFF_TRACK_MAP :: u32 where "C_DIFF_TRACK_MAP = 0x008"
definition C_DIFF_TRACK_DATA :: u32 where "C_DIFF_TRACK_DATA = 0x010"
definition C_DIFF_TRACK_FLAG :: u32 where "C_DIFF_TRACK_FLAG = 0x020"
definition C_DIFF_COMPRESS :: u32 where "C_DIFF_COMPRESS = 0x040"
definition C_DIFF_INTERLEAVE :: u32 where "C_DIFF_INTERLEAVE = 0x080"
definition C_DIFF_FILE_STRUCT :: u32 where "C_DIFF_FILE_STRUCT = 0x100"

definition C_MASK_HARD_DIFF :: u32 where
  "C_MASK_HARD_DIFF =
     C_DIFF_COMMENT OR C_DIFF_TRACK_HDR OR C_DIFF_TRACK_MAP OR C_DIFF_TRACK_DATA
     OR C_DIFF_TRACK_FLAG OR C_DIFF_FILE_STRUCT"

text \<open>The options of imdcmp that the comparison and the exit code read.\<close>

record CmpOptions =
  ignore_compression :: bool
  strict_compression :: bool
  warn_error :: bool

text \<open>\<open>len\<close> bytes of the track buffer from offset \<open>off\<close> (the operand of \<open>memcmp\<close>).\<close>

definition buffer_bytes :: "ImdTrackInfo \<Rightarrow> nat \<Rightarrow> nat \<Rightarrow> u8 list" where
  "buffer_bytes t off len = (case data t of None \<Rightarrow> [] | Some d \<Rightarrow> take len (drop off d))"

text \<open>The body of the sector loop for slot \<open>i\<close>: the difference bits it adds.\<close>

definition compare_sector :: "CmpOptions \<Rightarrow> ImdTrackInfo \<Rightarrow> ImdTrackInfo \<Rightarrow> nat \<Rightarrow> u32" where
  "compare_sector opts track1 track2 i =
     (let flag1 = sflag track1 ! i;
          flag2 = sflag track2 ! i;
          data_size = unat (sector_size track1);
          data1 = buffer_bytes track1 (i * unat (sector_size track1)) data_size;
          data2 = buffer_bytes track2 (i * unat (sector_size track2)) data_size;
          d_data = (if data1 \<noteq> data2 then C_DIFF_TRACK_DATA else C_DIFF_NONE);
          compress_diff_only =
            (IMD_SDR_IS_COMPRESSED flag1 \<noteq> IMD_SDR_IS_COMPRESSED flag2
             \<and> IMD_SDR_HAS_DATA flag1 = IMD_SDR_HAS_DATA flag2
             \<and> IMD_SDR_HAS_ERR flag1 = IMD_SDR_HAS_ERR flag2
             \<and> IMD_SDR_HAS_DAM flag1 = IMD_SDR_HAS_DAM flag2);
          d_flag =
            (if flag1 \<noteq> flag2 then
               (if compress_diff_only \<and> \<not> ignore_compression opts then C_DIFF_COMPRESS
                else if \<not> compress_diff_only then C_DIFF_TRACK_FLAG
                else C_DIFF_NONE)
             else C_DIFF_NONE)
      in d_data OR d_flag)"

text \<open>
  The comparison of two loaded tracks: \<open>current_track_diffs\<close>. The interleave calculation
  \<open>imd_calculate_best_interleave\<close> is a function of libimd.c and is a parameter here.
\<close>

definition compare_tracks ::
  "CmpOptions \<Rightarrow> (ImdTrackInfo \<Rightarrow> int) \<Rightarrow> ImdTrackInfo \<Rightarrow> ImdTrackInfo \<Rightarrow> u32" where
  "compare_tracks opts best_interleave track1 track2 =
     (if mode track1 \<noteq> mode track2 \<or> cyl track1 \<noteq> cyl track2 \<or> head track1 \<noteq> head track2
         \<or> num_sectors track1 \<noteq> num_sectors track2
         \<or> sector_size_code track1 \<noteq> sector_size_code track2
         \<or> hflag track1 \<noteq> hflag track2
      then C_DIFF_TRACK_HDR
      else
        (let n = unat (num_sectors track1);
             d_cmap = (if hflag track1 AND IMD_HFLAG_CMAP_PRES \<noteq> 0
                          \<and> take n (cmap track1) \<noteq> take n (cmap track2)
                       then C_DIFF_TRACK_MAP else C_DIFF_NONE);
             d_hmap = (if hflag track1 AND IMD_HFLAG_HMAP_PRES \<noteq> 0
                          \<and> take n (hmap track1) \<noteq> take n (hmap track2)
                       then C_DIFF_TRACK_MAP else C_DIFF_NONE);
             d_smap = (if take n (smap track1) \<noteq> take n (smap track2)
                       then C_DIFF_TRACK_MAP else C_DIFF_NONE);
             d_il = (if best_interleave track1 \<noteq> best_interleave track2
                     then C_DIFF_INTERLEAVE else C_DIFF_NONE)
         in fold (\<lambda>i acc. acc OR compare_sector opts track1 track2 i) [0 ..< n]
              (d_cmap OR d_hmap OR d_smap OR d_il)))"

text \<open>The variables of \<open>main\<close> that the track loop reads and writes.\<close>

record cmp_state =
  fimd1 :: track_stream
  fimd2 :: track_stream
  track1 :: ImdTrackInfo
  track2 :: ImdTrackInfo
  eof1 :: bool
  eof2 :: bool
  diff_flags :: u32
  final_return_code :: int
  track_count :: int

text \<open>One load at the head of the loop body, for either file: the new stream, track and
  end-of-file flag, and whether a load error ended the loop.\<close>

definition load_step ::
  "track_stream \<Rightarrow> ImdTrackInfo \<Rightarrow> bool \<Rightarrow> track_stream \<times> ImdTrackInfo \<times> bool \<times> bool" where
  "load_step f tr eof =
     (if \<not> eof then
        (case imd_load_track f of
           (load_status, loaded_track, f') \<Rightarrow>
             (let tr' = (case loaded_track of None \<Rightarrow> tr | Some t \<Rightarrow> t) in
              if load_status = 0 then (f', tr', True, False)
              else if load_status < 0 then (f', tr', eof, True)
              else (f', tr', eof, False)))
      else (f, tr, eof, False))"

text \<open>
  One execution of the loop body. The first component says whether the loop goes on
  (\<open>False\<close> after a \<open>break\<close>).
\<close>

definition cmp_iteration ::
  "CmpOptions \<Rightarrow> (ImdTrackInfo \<Rightarrow> int) \<Rightarrow> cmp_state \<Rightarrow> bool \<times> cmp_state" where
  "cmp_iteration opts best_interleave s =
     (case load_step (fimd1 s) (track1 s) (eof1 s) of
        (f1, t1, e1, err1) \<Rightarrow>
          let s1 = s\<lparr>fimd1 := f1, track1 := t1, eof1 := e1\<rparr> in
          if err1 then (False, s1\<lparr>final_return_code := EXIT_FILE_ERROR\<rparr>)
          else
            (case load_step (fimd2 s1) (track2 s1) (eof2 s1) of
               (f2, t2, e2, err2) \<Rightarrow>
                 let s2 = s1\<lparr>fimd2 := f2, track2 := t2, eof2 := e2\<rparr> in
                 if err2 then (False, s2\<lparr>final_return_code := EXIT_FILE_ERROR\<rparr>)
                 else if eof1 s2 \<noteq> eof2 s2 then
                   (False, s2\<lparr>diff_flags := diff_flags s2 OR C_DIFF_FILE_STRUCT\<rparr>)
                 else if eof1 s2 \<and> eof2 s2 then (False, s2)
                 else
                   (let current_track_diffs =
                          compare_tracks opts best_interleave (track1 s2) (track2 s2);
                        s3 = s2\<lparr>track_count := track_count s2 + 1,
                                diff_flags := diff_flags s2 OR current_track_diffs,
                                track1 := zero_track (length (smap (track1 s2))),
                                track2 := zero_track (length (smap (track2 s2)))\<rparr>
                    in (diff_flags s3 AND C_MASK_HARD_DIFF = 0, s3))))"

text \<open>The loop \<open>while (!eof1 || !eof2)\<close>.\<close>

function cmp_loop :: "CmpOptions \<Rightarrow> (ImdTrackInfo \<Rightarrow> int) \<Rightarrow> cmp_state \<Rightarrow> cmp_state" where
  "cmp_loop opts best_interleave s =
     (if \<not> eof1 s \<or> \<not> eof2 s then
        (let r = cmp_iteration opts best_interleave s in
         if fst r then cmp_loop opts best_interleave (snd r) else snd r)
      else s)"
  by pat_completeness auto

lemma load_step_length:
  "load_step f tr eof = (f', tr', eof', err) \<Longrightarrow>
     length f' \<le> length f \<and> (\<not> eof \<and> \<not> eof' \<and> \<not> err \<longrightarrow> length f' < length f)"
  by (cases f rule: imd_load_track.cases)
     (auto simp: load_step_def Let_def split: if_splits)

lemma cmp_iteration_decreases:
  assumes "fst (cmp_iteration opts il s)"
  shows "length (fimd1 (snd (cmp_iteration opts il s))) + length (fimd2 (snd (cmp_iteration opts il s)))
         < length (fimd1 s) + length (fimd2 s)"
proof -
  obtain f1 t1 e1 err1 where l1: "load_step (fimd1 s) (track1 s) (eof1 s) = (f1, t1, e1, err1)"
    by (metis prod_cases4)
  obtain f2 t2 e2 err2 where l2: "load_step (fimd2 s) (track2 s) (eof2 s) = (f2, t2, e2, err2)"
    by (metis prod_cases4)
  from assms l1 l2 have c: "\<not> err1" "\<not> err2" "\<not> e1" "\<not> e2"
    by (auto simp: cmp_iteration_def Let_def split: if_splits)
  from l1 c have "\<not> eof1 s" by (auto simp: load_step_def Let_def split: if_splits prod.splits)
  with load_step_length [OF l1] c have d1: "length f1 < length (fimd1 s)" by simp
  from l2 c have "\<not> eof2 s" by (auto simp: load_step_def Let_def split: if_splits prod.splits)
  with load_step_length [OF l2] c have d2: "length f2 < length (fimd2 s)" by simp
  from l1 l2 c have "fimd1 (snd (cmp_iteration opts il s)) = f1"
    "fimd2 (snd (cmp_iteration opts il s)) = f2"
    by (simp_all add: cmp_iteration_def Let_def)
  with d1 d2 show ?thesis by simp
qed

termination cmp_loop
  by (relation "measure (\<lambda>(opts, il, s). length (fimd1 s) + length (fimd2 s))")
     (simp_all add: cmp_iteration_decreases)

declare cmp_loop.simps [simp del]

text \<open>The code after the label \<open>cleanup\<close>: the exit code of the run.\<close>

definition cmp_exit_code :: "CmpOptions \<Rightarrow> cmp_state \<Rightarrow> int" where
  "cmp_exit_code opts s =
     (if final_return_code s = EXIT_FILE_ERROR then final_return_code s
      else if diff_flags s AND C_MASK_HARD_DIFF \<noteq> 0 then EXIT_DIFF
      else
        (let has_compress_diff = (diff_flags s AND C_DIFF_COMPRESS \<noteq> 0);
             has_interleave_diff = (diff_flags s AND C_DIFF_INTERLEAVE \<noteq> 0)
         in if has_compress_diff \<and> strict_compression opts then EXIT_DIFF_COMPRESS
            else if (has_compress_diff \<or> has_interleave_diff) \<and> warn_error opts then
              (if has_compress_diff \<and> has_interleave_diff then EXIT_DIFF
               else if has_compress_diff then EXIT_DIFF_COMPRESS
               else EXIT_DIFF_INTERLEAVE)
            else EXIT_MATCH))"

text \<open>
  \<open>main\<close> from the track loop on. The two streams are positioned after the comment
  blocks; \<open>diff0\<close> is \<open>diff_flags\<close> after the comparison of the comments (0 or
  \<open>C_DIFF_COMMENT\<close>). The result is the exit code and the final \<open>diff_flags\<close>.
\<close>

definition imdcmp_tracks ::
  "CmpOptions \<Rightarrow> (ImdTrackInfo \<Rightarrow> int) \<Rightarrow> nat \<Rightarrow> u32 \<Rightarrow> track_stream \<Rightarrow> track_stream
   \<Rightarrow> int \<times> u32" where
  "imdcmp_tracks opts best_interleave max_spt diff0 f1 f2 =
     (let s = cmp_loop opts best_interleave
                \<lparr>fimd1 = f1, fimd2 = f2, track1 = zero_track max_spt, track2 = zero_track max_spt,
                 eof1 = False, eof2 = False, diff_flags = diff0,
                 final_return_code = EXIT_MATCH, track_count = 0\<rparr>
      in (cmp_exit_code opts s, diff_flags s))"

section \<open>imdu: adding missing sectors (imdu.c, main, option --add-missing)\<close>

text \<open>The options of imdu that the track loop reads, apart from the write options.\<close>

record ImduOptions =
  add_missing_sectors_active :: bool
  add_missing_sectors_target :: int
  fill_specified :: bool
  fill_byte :: u8
  skip_track :: "u8 list"

definition IMDU_FILL_BYTE_DEFAULT :: u8 where
  "IMDU_FILL_BYTE_DEFAULT = 0"

text \<open>The local variables of the block that appends sector slots, together with the
  track that is being extended.\<close>

record add_state =
  trk :: ImdTrackInfo
  used_ids :: "u8 list"
  next_smap_id_candidate :: u8
  current_physical_idx_for_add :: u8

text \<open>\<open>used_ids\<close> after the first loop: 256 zero bytes, then a 1 at every identifier of the
  first \<open>num_sectors\<close> entries of the sector map.\<close>

definition mark_used_ids :: "ImdTrackInfo \<Rightarrow> u8 list" where
  "mark_used_ids t =
     fold (\<lambda>k used. used[unat (smap t ! k) := 1]) [0 ..< unat (num_sectors t)] (replicate 256 0)"

text \<open>
  The search \<open>while (next_smap_id_candidate < 256 && used_ids[next_smap_id_candidate])
  next_smap_id_candidate++\<close>. The candidate is a byte, so the comparison with 256 always
  holds and the increment wraps from 255 to 0: the loop ends only at an unused identifier,
  and the test \<open>next_smap_id_candidate >= 256\<close> after it never succeeds. A search that
  does not end is the value \<open>None\<close>.
\<close>

partial_function (option) next_free_id :: "u8 list \<Rightarrow> u8 \<Rightarrow> u8 option" where
  "next_free_id used c =
     (if used ! unat c \<noteq> 0 then next_free_id used (c + 1) else Some c)"

declare next_free_id.simps [code]

text \<open>The rest of the body of the second loop, once the identifier \<open>c\<close> is found.\<close>

definition add_one_sector :: "add_state \<Rightarrow> u8 \<Rightarrow> add_state" where
  "add_one_sector st c =
     (let t = trk st;
          idx = unat (current_physical_idx_for_add st);
          t1 = t\<lparr>smap := (smap t)[idx := c], sflag := (sflag t)[idx := IMD_SDR_UNAVAILABLE]\<rparr>;
          t2 = (if hflag t AND IMD_HFLAG_CMAP_PRES \<noteq> 0
                then t1\<lparr>cmap := (cmap t1)[idx := cyl t]\<rparr> else t1);
          t3 = (if hflag t AND IMD_HFLAG_HMAP_PRES \<noteq> 0
                then t2\<lparr>hmap := (hmap t2)[idx := head t]\<rparr> else t2)
      in st\<lparr>trk := t3,
            used_ids := (used_ids st)[unat c := 1],
            next_smap_id_candidate := c,
            current_physical_idx_for_add := current_physical_idx_for_add st + 1\<rparr>)"

text \<open>The second loop, \<open>for (k = 0; k < num_to_add; ++k)\<close>, by the number of iterations
  that remain; it breaks when the index reaches \<open>LIBIMD_MAX_SECTORS_PER_TRACK\<close>
  (\<open>max_spt\<close>).\<close>

fun add_loop :: "nat \<Rightarrow> nat \<Rightarrow> add_state \<Rightarrow> add_state option" where
  "add_loop max_spt 0 st = Some st"
| "add_loop max_spt (Suc k) st =
     (if unat (current_physical_idx_for_add st) \<ge> max_spt then Some st
      else
        (case next_free_id (used_ids st) (next_smap_id_candidate st) of
           None \<Rightarrow> None
         | Some c \<Rightarrow> add_loop max_spt k (add_one_sector st c)))"

text \<open>
  The whole block. \<open>LIBIMD_MAX_SECTORS_PER_TRACK\<close> is defined in libimd.h and is the
  parameter \<open>max_spt\<close>; whether \<open>realloc\<close> succeeds is the parameter \<open>realloc_ok\<close>. The
  target is an \<open>int\<close> that the source casts to a byte. \<open>None\<close> means that the search for
  an identifier does not end.
\<close>

definition add_missing_sectors ::
  "nat \<Rightarrow> ImduOptions \<Rightarrow> bool \<Rightarrow> ImdTrackInfo \<Rightarrow> ImdTrackInfo option" where
  "add_missing_sectors max_spt opts realloc_ok t =
     (if add_missing_sectors_active opts \<and> sector_size t > 0
         \<and> num_sectors t < (word_of_int (add_missing_sectors_target opts) :: u8)
      then
        (let target0 = (word_of_int (add_missing_sectors_target opts) :: u8);
             target_total_spt = (if unat target0 > max_spt then of_nat max_spt else target0);
             num_to_add0 = (if target_total_spt > num_sectors t
                            then target_total_spt - num_sectors t else 0)
         in if num_to_add0 > 0 then
              (let old_data_size = data_size t;
                   new_required_data_size = unat target_total_spt * unat (sector_size t);
                   fill = (if fill_specified opts then fill_byte opts else IMDU_FILL_BYTE_DEFAULT);
                   need_realloc = (new_required_data_size > old_data_size
                                   \<or> (data t = None \<and> new_required_data_size > 0));
                   realloc_failed = (need_realloc \<and> \<not> realloc_ok);
                   num_to_add = (if realloc_failed then 0 else num_to_add0);
                   t1 = (if need_realloc \<and> \<not> realloc_failed
                         then t\<lparr>data := Some (take new_required_data_size
                                               (case data t of None \<Rightarrow> [] | Some d \<Rightarrow> d)
                                             @ replicate (new_required_data_size - old_data_size) fill)\<rparr>
                         else t);
                   t2 = t1\<lparr>data_size := new_required_data_size\<rparr>
               in if num_to_add > 0 \<and> data t2 \<noteq> None then
                    (case add_loop max_spt (unat num_to_add)
                            \<lparr>trk = t2, used_ids = mark_used_ids t2,
                             next_smap_id_candidate = 0,
                             current_physical_idx_for_add = num_sectors t2\<rparr> of
                       None \<Rightarrow> None
                     | Some st \<Rightarrow>
                         Some ((trk st)\<lparr>num_sectors := current_physical_idx_for_add st\<rparr>))
                  else Some t2)
            else Some t)
      else Some t)"

text \<open>Options for evaluation: \<open>--add-missing=6\<close>, no fill byte, no excluded track.\<close>

definition example_imdu_opts :: ImduOptions where
  "example_imdu_opts =
     \<lparr>add_missing_sectors_active = True, add_missing_sectors_target = 6,
      fill_specified = False, fill_byte = 0, skip_track = replicate 256 0\<rparr>"

text \<open>
  The invariant of the second loop, used in the proofs: \<open>t0\<close> is the track before the
  block. The arrays keep their size, the entries below the old sector count are
  untouched, the entries of the sector map below the current index are pairwise
  different and are exactly the identifiers marked in \<open>used_ids\<close>, and every appended
  slot carries the unavailable flag and, where the maps are present, the cylinder and
  head of the track.
\<close>

definition add_inv :: "nat \<Rightarrow> ImdTrackInfo \<Rightarrow> add_state \<Rightarrow> bool" where
  "add_inv max_spt t0 st \<longleftrightarrow>
     length (smap (trk st)) = max_spt \<and> length (sflag (trk st)) = max_spt
     \<and> length (cmap (trk st)) = max_spt \<and> length (hmap (trk st)) = max_spt
     \<and> length (used_ids st) = 256
     \<and> hflag (trk st) = hflag t0 \<and> cyl (trk st) = cyl t0 \<and> head (trk st) = head t0
     \<and> unat (num_sectors t0) \<le> unat (current_physical_idx_for_add st)
     \<and> unat (current_physical_idx_for_add st) \<le> max_spt
     \<and> take (unat (num_sectors t0)) (smap (trk st)) = take (unat (num_sectors t0)) (smap t0)
     \<and> distinct (take (unat (current_physical_idx_for_add st)) (smap (trk st)))
     \<and> (\<forall>c. used_ids st ! unat c \<noteq> 0 \<longleftrightarrow>
              c \<in> set (take (unat (current_physical_idx_for_add st)) (smap (trk st))))
     \<and> (\<forall>i. unat (num_sectors t0) \<le> i \<and> i < unat (current_physical_idx_for_add st) \<longrightarrow>
              sflag (trk st) ! i = IMD_SDR_UNAVAILABLE
              \<and> (hflag t0 AND IMD_HFLAG_CMAP_PRES \<noteq> 0 \<longrightarrow> cmap (trk st) ! i = cyl t0)
              \<and> (hflag t0 AND IMD_HFLAG_HMAP_PRES \<noteq> 0 \<longrightarrow> hmap (trk st) ! i = head t0))"

section \<open>imdu: the track loop with a merge file (imdu.c, main)\<close>

text \<open>
  Constants of libimd.h that the loop uses and that are not among the sources; they are
  parameters of the model.
\<close>

record libimd_consts =
  LIBIMD_MAX_SECTORS_PER_TRACK :: nat
  IMD_SIDE_0_MASK :: u8
  IMD_SIDE_1_MASK :: u8

text \<open>
  The variables of \<open>main\<close> that the track loop reads and writes. \<open>fmerge\<close> is \<open>None\<close> when no
  merge file was given. \<open>written\<close> collects, in order, the tracks handed to
  \<open>imd_write_track_imd\<close> or \<open>imd_write_track_bin\<close> (the run has an output file, and the
  writer does not fail).
\<close>

record merge_state =
  fimd :: track_stream
  fmerge :: "track_stream option"
  primary_track :: ImdTrackInfo
  merge_track :: ImdTrackInfo
  primary_eof :: bool
  merge_eof :: bool
  written :: "ImdTrackInfo list"

text \<open>The order test of the selection, used once for each direction:
  \<open>a.cyl < b.cyl || (a.cyl == b.cyl && a.head < b.head)\<close>.\<close>

definition track_before :: "ImdTrackInfo \<Rightarrow> ImdTrackInfo \<Rightarrow> bool" where
  "track_before a b \<longleftrightarrow> cyl a < cyl b \<or> (cyl a = cyl b \<and> head a < head b)"

text \<open>The two loads at the head of the loop body. \<open>None\<close> is a load error
  (\<open>goto cleanup\<close> with a failure status).\<close>

definition load_primary :: "merge_state \<Rightarrow> merge_state option" where
  "load_primary s =
     (if \<not> primary_eof s \<and> \<not> loaded (primary_track s) then
        (case imd_load_track (fimd s) of
           (load_status, loaded_track, rest) \<Rightarrow>
             if load_status = 0 then
               Some (s\<lparr>fimd := rest, primary_eof := True,
                       primary_track := (primary_track s)\<lparr>loaded := False\<rparr>\<rparr>)
             else if load_status < 0 then None
             else
               (case loaded_track of
                  None \<Rightarrow> None
                | Some t \<Rightarrow> Some (s\<lparr>fimd := rest, primary_track := t\<rparr>)))
      else Some s)"

definition load_merge :: "merge_state \<Rightarrow> merge_state option" where
  "load_merge s =
     (case fmerge s of
        None \<Rightarrow> Some s
      | Some f \<Rightarrow>
          if \<not> merge_eof s \<and> \<not> loaded (merge_track s) then
            (case imd_load_track f of
               (load_status, loaded_track, rest) \<Rightarrow>
                 if load_status = 0 then
                   Some (s\<lparr>fmerge := Some rest, merge_eof := True,
                           merge_track := (merge_track s)\<lparr>loaded := False\<rparr>\<rparr>)
                 else if load_status < 0 then None
                 else
                   (case loaded_track of
                      None \<Rightarrow> None
                    | Some t \<Rightarrow> Some (s\<lparr>fmerge := Some rest, merge_track := t\<rparr>)))
          else Some s)"

text \<open>
  The selection of \<open>track_to_process\<close> (lines 790 to 806). \<open>None\<close> is the \<open>break\<close> when
  neither track is loaded. When both tracks are at the same cylinder and head, the merge
  track is freed and cleared here.
\<close>

datatype track_choice = Use_primary | Use_merge

definition select_track :: "merge_state \<Rightarrow> (track_choice \<times> merge_state) option" where
  "select_track s =
     (if loaded (primary_track s) \<and> loaded (merge_track s) then
        (if track_before (primary_track s) (merge_track s) then Some (Use_primary, s)
         else if track_before (merge_track s) (primary_track s) then Some (Use_merge, s)
         else Some (Use_primary,
                    s\<lparr>merge_track := zero_track (length (smap (merge_track s)))\<rparr>))
      else if loaded (primary_track s) then Some (Use_primary, s)
      else if loaded (merge_track s) then Some (Use_merge, s)
      else None)"

text \<open>The exclusion test of option \<open>-X\<close>.\<close>

definition track_excluded :: "libimd_consts \<Rightarrow> ImduOptions \<Rightarrow> ImdTrackInfo \<Rightarrow> bool" where
  "track_excluded lc opts t =
     (let skip_mask = skip_track opts ! unat (cyl t);
          side_bit = (if head t = 0 then IMD_SIDE_0_MASK lc else IMD_SIDE_1_MASK lc)
      in skip_mask AND side_bit \<noteq> 0)"

text \<open>
  The rest of the loop body for the selected track: an excluded track is freed and
  cleared; any other track goes through the block that adds missing sectors, is written,
  and is then freed and cleared. \<open>None\<close> means that the block does not return.
\<close>

definition process_track ::
  "libimd_consts \<Rightarrow> ImduOptions \<Rightarrow> bool \<Rightarrow> track_choice \<Rightarrow> merge_state \<Rightarrow> merge_state option" where
  "process_track lc opts realloc_ok choice s =
     (let track_to_process =
            (case choice of Use_primary \<Rightarrow> primary_track s | Use_merge \<Rightarrow> merge_track s);
          cleared =
            (case choice of
               Use_primary \<Rightarrow>
                 s\<lparr>primary_track := zero_track (length (smap (primary_track s)))\<rparr>
             | Use_merge \<Rightarrow>
                 s\<lparr>merge_track := zero_track (length (smap (merge_track s)))\<rparr>)
      in if track_excluded lc opts track_to_process then Some cleared
         else
           (case add_missing_sectors (LIBIMD_MAX_SECTORS_PER_TRACK lc) opts realloc_ok
                   track_to_process of
              None \<Rightarrow> None
            | Some t' \<Rightarrow> Some (cleared\<lparr>written := written s @ [t']\<rparr>)))"

text \<open>
  The outcome of the track loop: the loop ends normally, a load error leaves it through
  \<open>goto cleanup\<close>, or the block that adds missing sectors does not return. In each case
  the tracks already handed to the writer stay written, so each outcome carries them.
\<close>

datatype merge_result =
  Finished "ImdTrackInfo list" | Load_failed "ImdTrackInfo list" | No_return "ImdTrackInfo list"

text \<open>The measure that decreases with every turn of the loop: the records still in the
  two files count twice, each loaded track once.\<close>

definition merge_measure :: "merge_state \<Rightarrow> nat" where
  "merge_measure s =
     2 * (length (fimd s) + (case fmerge s of None \<Rightarrow> 0 | Some f \<Rightarrow> length f))
     + (if loaded (primary_track s) then 1 else 0)
     + (if loaded (merge_track s) then 1 else 0)"

lemma load_primary_measure:
  "load_primary s = Some s1 \<Longrightarrow> merge_measure s1 \<le> merge_measure s"
  by (cases "fimd s" rule: imd_load_track.cases)
     (auto simp: load_primary_def merge_measure_def split: if_splits option.splits)

lemma load_merge_measure:
  "load_merge s = Some s1 \<Longrightarrow> merge_measure s1 \<le> merge_measure s"
proof (cases "fmerge s")
  case None
  then show "load_merge s = Some s1 \<Longrightarrow> ?thesis" by (simp add: load_merge_def)
next
  case (Some f)
  then show "load_merge s = Some s1 \<Longrightarrow> ?thesis"
    by (cases f rule: imd_load_track.cases)
       (auto simp: load_merge_def merge_measure_def split: if_splits option.splits)
qed

lemma select_track_measure:
  assumes "select_track s = Some (choice, s1)"
  shows "merge_measure s1 \<le> merge_measure s"
    and "choice = Use_primary \<Longrightarrow> loaded (primary_track s1)"
    and "choice = Use_merge \<Longrightarrow> loaded (merge_track s1)"
  using assms
  by (auto simp: select_track_def merge_measure_def zero_track_def split: if_splits)

lemma process_track_measure:
  assumes "process_track lc opts realloc_ok choice s = Some s1"
    and "choice = Use_primary \<Longrightarrow> loaded (primary_track s)"
    and "choice = Use_merge \<Longrightarrow> loaded (merge_track s)"
  shows "merge_measure s1 < merge_measure s"
  using assms
  by (cases choice)
     (auto simp: process_track_def merge_measure_def zero_track_def Let_def
        split: if_splits option.splits)

text \<open>The loop \<open>while (!primary_eof || !merge_eof)\<close>.\<close>

function merge_loop ::
  "libimd_consts \<Rightarrow> ImduOptions \<Rightarrow> bool \<Rightarrow> merge_state \<Rightarrow> merge_result" where
  "merge_loop lc opts realloc_ok s =
     (if \<not> primary_eof s \<or> \<not> merge_eof s then
        (case load_primary s of
           None \<Rightarrow> Load_failed (written s)
         | Some s1 \<Rightarrow>
             (case load_merge s1 of
                None \<Rightarrow> Load_failed (written s1)
              | Some s2 \<Rightarrow>
                  (case select_track s2 of
                     None \<Rightarrow> Finished (written s2)
                   | Some (choice, s3) \<Rightarrow>
                       (case process_track lc opts realloc_ok choice s3 of
                          None \<Rightarrow> No_return (written s3)
                        | Some s4 \<Rightarrow> merge_loop lc opts realloc_ok s4))))
      else Finished (written s))"
  by pat_completeness auto

termination merge_loop
proof (relation "measure (\<lambda>(lc, opts, realloc_ok, s). merge_measure s)")
  show "wf (measure (\<lambda>(lc, opts, realloc_ok, s). merge_measure s))" by simp
next
  fix lc :: libimd_consts and opts :: ImduOptions and realloc_ok :: bool
    and s s1 s2 s3 s4 :: merge_state and x :: "track_choice \<times> merge_state"
    and choice :: track_choice
  assume "load_primary s = Some s1" "load_merge s1 = Some s2" "select_track s2 = Some x"
    "(choice, s3) = x" "process_track lc opts realloc_ok choice s3 = Some s4"
  then have sel: "select_track s2 = Some (choice, s3)" by simp
  from load_primary_measure [OF \<open>load_primary s = Some s1\<close>]
    load_merge_measure [OF \<open>load_merge s1 = Some s2\<close>]
    select_track_measure(1) [OF sel]
    process_track_measure [OF \<open>process_track lc opts realloc_ok choice s3 = Some s4\<close>
      select_track_measure(2) [OF sel] select_track_measure(3) [OF sel]]
  show "((lc, opts, realloc_ok, s4), (lc, opts, realloc_ok, s))
        \<in> measure (\<lambda>(lc, opts, realloc_ok, s). merge_measure s)"
    by simp
qed

declare merge_loop.simps [simp del]

text \<open>The track loop of a run on a primary file and an optional merge file, both
  positioned after their comment blocks.\<close>

definition imdu_track_loop ::
  "libimd_consts \<Rightarrow> ImduOptions \<Rightarrow> bool \<Rightarrow> track_stream \<Rightarrow> track_stream option
   \<Rightarrow> merge_result" where
  "imdu_track_loop lc opts realloc_ok f fm =
     merge_loop lc opts realloc_ok
       \<lparr>fimd = f, fmerge = fm,
        primary_track = zero_track (LIBIMD_MAX_SECTORS_PER_TRACK lc),
        merge_track = zero_track (LIBIMD_MAX_SECTORS_PER_TRACK lc),
        primary_eof = False, merge_eof = False, written = []\<rparr>"

text \<open>
  The merge as the claim describes it, for comparison with the loop: the tracks of two
  lists taken in ascending order of cylinder and head, the track of the first list
  taken and the track of the second list dropped when both are at the same position.
\<close>

fun merge_tracks :: "ImdTrackInfo list \<Rightarrow> ImdTrackInfo list \<Rightarrow> ImdTrackInfo list" where
  "merge_tracks [] ms = ms"
| "merge_tracks (p # ps) [] = p # ps"
| "merge_tracks (p # ps) (m # ms) =
     (if track_before p m then p # merge_tracks ps (m # ms)
      else if track_before m p then m # merge_tracks (p # ps) ms
      else p # merge_tracks ps ms)"

text \<open>Constants for evaluation: a maximum of 256 sectors and side masks 1 and 2.\<close>

definition example_consts :: libimd_consts where
  "example_consts =
     \<lparr>LIBIMD_MAX_SECTORS_PER_TRACK = 256, IMD_SIDE_0_MASK = 1, IMD_SIDE_1_MASK = 2\<rparr>"

text \<open>
  Notions for the proofs about the loop. The tracks that a stream will deliver, as they
  are after loading; the tracks that each input still has to deliver in a given state of
  the loop, the loaded one first, up to the first malformed record; and the states that
  the loop can be in.
\<close>

fun stream_tracks :: "track_stream \<Rightarrow> ImdTrackInfo list" where
  "stream_tracks [] = []"
| "stream_tracks (Track t # rest) = t\<lparr>loaded := True\<rparr> # stream_tracks rest"
| "stream_tracks (Malformed # rest) = []"

definition pending_primary :: "merge_state \<Rightarrow> ImdTrackInfo list" where
  "pending_primary s =
     (if loaded (primary_track s) then [primary_track s] else []) @ stream_tracks (fimd s)"

definition pending_merge :: "merge_state \<Rightarrow> ImdTrackInfo list" where
  "pending_merge s =
     (if loaded (merge_track s) then [merge_track s] else [])
     @ (case fmerge s of None \<Rightarrow> [] | Some f \<Rightarrow> stream_tracks f)"

definition merge_wf :: "merge_state \<Rightarrow> bool" where
  "merge_wf s \<longleftrightarrow>
     (case fmerge s of
        None \<Rightarrow> \<not> loaded (merge_track s) \<and> \<not> merge_eof s
      | Some f \<Rightarrow> (merge_eof s \<longrightarrow> f = [] \<and> \<not> loaded (merge_track s)))
     \<and> (primary_eof s \<longrightarrow> fimd s = [] \<and> \<not> loaded (primary_track s))"

text \<open>Neither file has a malformed record left.\<close>

definition streams_clean :: "merge_state \<Rightarrow> bool" where
  "streams_clean s \<longleftrightarrow>
     Malformed \<notin> set (fimd s)
     \<and> (case fmerge s of None \<Rightarrow> True | Some f \<Rightarrow> Malformed \<notin> set f)"

text \<open>The position of a track as one number, cylinder first.\<close>

definition track_pos :: "ImdTrackInfo \<Rightarrow> nat" where
  "track_pos t = unat (cyl t) * 256 + unat (head t)"

text \<open>A list of tracks is in ascending order of cylinder and head when no track comes
  before an earlier one.\<close>

definition tracks_ascending :: "ImdTrackInfo list \<Rightarrow> bool" where
  "tracks_ascending ts = sorted_wrt (\<lambda>a b. \<not> track_before b a) ts"

text \<open>The tracks written by a run of the loop, however it ends.\<close>

definition written_tracks :: "merge_result \<Rightarrow> ImdTrackInfo list" where
  "written_tracks r =
     (case r of Finished ts \<Rightarrow> ts | Load_failed ts \<Rightarrow> ts | No_return ts \<Rightarrow> ts)"

text \<open>Tracks at chosen positions, for evaluation.\<close>

definition example_track_at :: "u8 \<Rightarrow> u8 \<Rightarrow> ImdTrackInfo" where
  "example_track_at c h = example_track\<lparr>cyl := c, head := h\<rparr>"

text \<open>
  Two inputs for evaluation. The primary file holds tracks at cylinder 0, heads 0 and 1;
  the merge file holds a track at cylinder 0, head 1, whose sectors all carry the error
  flag, and a track at cylinder 1, head 0.
\<close>

definition example_primary_tracks :: "ImdTrackInfo list" where
  "example_primary_tracks = [example_track_at 0 0, example_track_at 0 1]"

definition example_merge_tracks :: "ImdTrackInfo list" where
  "example_merge_tracks =
     [(example_track_at 0 1)\<lparr>sflag := [5, 5, 5] @ replicate 253 0\<rparr>, example_track_at 1 0]"

text \<open>A primary file whose tracks are not in ascending order.\<close>

definition example_unsorted_tracks :: "ImdTrackInfo list" where
  "example_unsorted_tracks = [example_track_at 1 0, example_track_at 0 0]"

section \<open>Interleave analyzer\<close>

text \<open>
  Modelled from the spec: \<open>generate_interleaved_map\<close> and \<open>calculate_best_interleave\<close>
  (\<open>imd_calculate_best_interleave\<close>) are functions of libimd.c, which is not among the
  sources. Section 4.3 of the specification describes them.

  The generator starts at the first physical slot and places the consecutive identifiers
  \<open>base_id\<close>, \<open>base_id + 1\<close>, ... one after the other; after each placement it advances
  \<open>factor\<close> slots modulo the sector count and then skips slots that are already filled.
  A slot is \<open>None\<close> while it is empty.
\<close>

fun find_free_slot :: "nat option list \<Rightarrow> nat \<Rightarrow> nat \<Rightarrow> nat option" where
  "find_free_slot slots pos 0 = None"
| "find_free_slot slots pos (Suc fuel) =
     (if slots ! pos = None then Some pos
      else find_free_slot slots ((pos + 1) mod length slots) fuel)"

fun place_ids :: "nat \<Rightarrow> nat \<Rightarrow> nat \<Rightarrow> nat \<Rightarrow> nat option list \<Rightarrow> nat option list" where
  "place_ids factor next_id 0 pos slots = slots"
| "place_ids factor next_id (Suc remaining) pos slots =
     (case find_free_slot slots pos (length slots) of
        None \<Rightarrow> slots
      | Some p \<Rightarrow>
          place_ids factor (next_id + 1) remaining ((p + factor) mod length slots)
            (slots[p := Some next_id]))"

definition generate_interleaved_map :: "nat \<Rightarrow> nat \<Rightarrow> nat \<Rightarrow> nat list" where
  "generate_interleaved_map sector_count factor base_id =
     map (\<lambda>slot. case slot of None \<Rightarrow> 0 | Some i \<Rightarrow> i)
       (place_ids factor base_id sector_count 0 (replicate sector_count None))"

text \<open>
  Modelled from the spec: the analyzer tries the factors in ascending order; a factor is
  a candidate when the map generated with it for the identifiers from 1 on is the given
  sector map. The result is the smallest candidate, or \<open>None\<close> when there is none.
  Section 4.3 gives the factors tried as 1 through \<open>sector_count - 1\<close>, and section 8
  has the map of a single sector analysed as factor 1, so factor 1 is tried for every
  map, and past it the factors up to \<open>sector_count - 1\<close>.
\<close>

definition calculate_best_interleave :: "nat list \<Rightarrow> nat option" where
  "calculate_best_interleave sector_map =
     find (\<lambda>factor. generate_interleaved_map (length sector_map) factor 1 = sector_map)
       [1 ..< max 2 (length sector_map)]"

section \<open>Theorems\<close>

subsection \<open>Bytes\<close>

lemma u8_le_5_cases:
  fixes m :: u8
  assumes "m \<le> 5"
  shows "m = 0 \<or> m = 1 \<or> m = 2 \<or> m = 3 \<or> m = 4 \<or> m = 5"
proof -
  from assms have "unat m \<le> 5" by (simp add: word_le_nat_alt)
  then have "unat m = 0 \<or> unat m = 1 \<or> unat m = 2 \<or> unat m = 3 \<or> unat m = 4 \<or> unat m = 5"
    by arith
  then show ?thesis
    by (simp add: word_unat_eq_iff)
qed

subsection \<open>imdchk exit code\<close>

text \<open>
  Claim C1 (evaluated at a failing input). A file whose only failed check is the
  cylinder-sequence decrease, scanned completely (library status 0) and checked with an
  error mask that does not contain that bit, still ends with exit code 1 and the result
  line FAIL: the source assigns 1 to the exit code unconditionally.
\<close>

theorem imdchk_masked_failure_exits_1:
  "imdchk_main_tail False 0
     \<lparr>error_mask = 0x0677, max_allowed_cyl = - 1, required_head = - 1, max_allowed_sectors = - 1\<rparr>
     \<lparr>check_failures_mask = CHECK_BIT_SEQ_CYL_DEC, track_read_count = 4\<rparr>
   = (1, Result_FAIL)
   \<and> CHECK_BIT_SEQ_CYL_DEC AND 0x0677 = 0"
  by (simp add: imdchk_main_tail_def CHECK_BIT_SEQ_CYL_DEC_def)

subsection \<open>Mode numbering\<close>

text \<open>
  Claim C7. For every mode byte in 0..5 the rate class is the remainder of the mode by 3,
  class 0 stands for 500 kbps, class 1 for 300 kbps and class 2 for 250 kbps, which is the
  entry of \<open>MODE_RATES\<close> for that mode; modes 0 to 2 are FM and modes 3 to 5 are MFM.
\<close>

theorem mode_class_matches_MODE_RATES:
  fixes m :: u8
  assumes "m \<le> 5"
  shows "data_rates_used (track_modes_used m 0) = [MODE_RATES ! unat m]
       \<and> MODE_RATES ! unat m = [500, 300, 250] ! mode_class m
       \<and> mode_class m = unat m mod 3
       \<and> (mode_encoding m = FM \<longleftrightarrow> m \<le> 2)
       \<and> (mode_encoding m = MFM \<longleftrightarrow> 3 \<le> m)"
  using u8_le_5_cases [OF assms]
  by (auto simp: data_rates_used_def track_modes_used_def mode_class_def MODE_RATES_def
      mode_encoding_def word_le_nat_alt word_less_nat_alt)

theorem mode_class_matches_MODE_RATES_witness:
  "(4 :: u8) \<le> 5 \<and> data_rates_used (track_modes_used 4 0) = [300]
   \<and> MODE_RATES ! unat (4 :: u8) = 300 \<and> mode_class 4 = 1 \<and> mode_encoding 4 = MFM"
  using mode_class_matches_MODE_RATES [of 4]
  by (simp add: MODE_RATES_def mode_class_def mode_encoding_def word_le_nat_alt)

subsection \<open>Rate translation option\<close>

lemma find_mode_to_Some:
  "find_mode_to i rate_to js = Some j \<Longrightarrow>
     j \<in> set js \<and> same_fm_mfm_side i j \<and> rate_code_matches (MODE_TO_RATE_CODE ! j) rate_to"
  by (induction js) (auto split: if_splits)

lemma translate_modes_cases:
  "translate_modes rate_from rate_to tbl is = (mode_from, mode_to, tbl') \<Longrightarrow>
     (mode_to = - 1 \<and> tbl' = tbl) \<or>
     (\<exists>i j. i \<in> set is \<and> j < LIBIMD_NUM_MODES \<and> mode_from = int i \<and> mode_to = int j
        \<and> same_fm_mfm_side i j \<and> tbl' = tbl[i := of_nat j])"
proof (induction "is")
  case Nil
  then show ?case by simp
next
  case (Cons i "is")
  show ?case
  proof (cases "rate_code_matches (MODE_TO_RATE_CODE ! i) rate_from")
    case True
    show ?thesis
    proof (cases "find_mode_to i rate_to [0 ..< LIBIMD_NUM_MODES]")
      case None
      with True Cons.prems show ?thesis by simp
    next
      case (Some j)
      from find_mode_to_Some [OF Some] have "j < LIBIMD_NUM_MODES" "same_fm_mfm_side i j"
        by auto
      with True Some Cons.prems show ?thesis by auto
    qed
  next
    case False
    with Cons show ?thesis by auto
  qed
qed

text \<open>
  Claim C6. A \<open>-T\<close> request changes an entry \<open>tmode[old_mode]\<close> of the six-entry table only
  to a \<open>new_mode\<close> on the same side of the FM/MFM boundary (both below 3 or both at least
  3); no pair of modes on different sides is ever applied, and a request for which no
  target mode is found (\<open>mode_to\<close> stays \<open>-1\<close>) leaves the table as it was.
\<close>

theorem tmode_only_within_side:
  assumes run: "parse_T_option rate_from rate_to tbl = (mode_from, mode_to, tbl')"
    and len: "length tbl = LIBIMD_NUM_MODES"
  shows "(\<forall>m < LIBIMD_NUM_MODES. tbl' ! m \<noteq> tbl ! m \<longrightarrow>
            mode_from = int m \<and> tbl' ! m = of_int mode_to
            \<and> same_fm_mfm_side m (nat mode_to))
       \<and> (\<forall>i j. \<not> same_fm_mfm_side i j \<longrightarrow> \<not> (mode_from = int i \<and> mode_to = int j))
       \<and> (mode_to = - 1 \<longrightarrow> tbl' = tbl)"
proof -
  from translate_modes_cases [OF run [unfolded parse_T_option_def]]
  consider (rej) "mode_to = - 1" "tbl' = tbl"
    | (app) i j where "i < LIBIMD_NUM_MODES" "j < LIBIMD_NUM_MODES" "mode_from = int i"
        "mode_to = int j" "same_fm_mfm_side i j" "tbl' = tbl[i := of_nat j]"
    by auto
  then show ?thesis
  proof cases
    case rej
    then show ?thesis by simp
  next
    case app
    with len show ?thesis by (auto simp: nth_list_update)
  qed
qed

theorem tmode_only_within_side_witness:
  "parse_T_option 300 250 [0, 1, 2, 3, 4, 5] = (1, 2, [0, 2, 2, 3, 4, 5])
   \<and> length [0, 1, 2, 3, 4, 5 :: u8] = LIBIMD_NUM_MODES
   \<and> same_fm_mfm_side 1 (nat 2) \<and> \<not> same_fm_mfm_side 1 5"
proof -
  have run: "parse_T_option 300 250 [0, 1, 2, 3, 4, 5] = (1, 2, [0, 2, 2, 3, 4, 5])"
    by code_simp
  have len: "length [0, 1, 2, 3, 4, 5 :: u8] = LIBIMD_NUM_MODES"
    by (simp add: LIBIMD_NUM_MODES_def)
  from tmode_only_within_side [OF run len] run len show ?thesis
    by (simp add: same_fm_mfm_side_def)
qed

subsection \<open>Status flags of written sectors\<close>

lemmas sdr_defs = IMD_SDR_UNAVAILABLE_def IMD_SDR_NORMAL_def IMD_SDR_COMPRESSED_def
  IMD_SDR_NORMAL_DAM_def IMD_SDR_COMPRESSED_DAM_def IMD_SDR_NORMAL_ERR_def
  IMD_SDR_COMPRESSED_ERR_def IMD_SDR_DELETED_ERR_def IMD_SDR_COMPRESSED_DEL_ERR_def

lemmas sdr_tests = IMD_SDR_HAS_DATA_def IMD_SDR_IS_COMPRESSED_def IMD_SDR_HAS_DAM_def
  IMD_SDR_HAS_ERR_def

lemma imd_is_uniform_replicate: "0 < n \<Longrightarrow> imd_is_uniform (replicate n v) = (True, v)"
  by (cases n) (simp_all add: list_all_iff)

lemma imd_is_uniform_iff:
  "fst (imd_is_uniform bs) \<longleftrightarrow> bs \<noteq> [] \<and> (\<exists>v. bs = replicate (length bs) v)"
proof (cases bs)
  case Nil
  then show ?thesis by simp
next
  case (Cons b bs')
  have "list_all (\<lambda>x. x = b) bs' \<longleftrightarrow> bs' = replicate (length bs') b"
    by (induction bs') auto
  moreover have "(\<exists>v. b # bs' = replicate (Suc (length bs')) v) \<longleftrightarrow> bs' = replicate (length bs') b"
    by auto
  ultimately show ?thesis using Cons by simp
qed

lemma final_sflag_nth:
  "i < unat (num_sectors t) \<Longrightarrow> final_sflag wo t ! i = final_sflag_at wo t i"
  by (simp add: final_sflag_def)

text \<open>The four tests applied to a final flag, in terms of the original flag and the options.\<close>

lemma final_compressed_iff:
  "IMD_SDR_IS_COMPRESSED (final_sflag_at wo t i) \<longleftrightarrow>
     IMD_SDR_HAS_DATA (sflag t ! i) \<and> is_uniform_sector t i \<and>
     (compression_mode wo = IMD_COMPRESSION_FORCE_COMPRESS \<or>
      compression_mode wo = IMD_COMPRESSION_AS_READ \<and> IMD_SDR_IS_COMPRESSED (sflag t ! i))"
  by (cases "compression_mode wo")
     (auto simp: final_sflag_at_def Let_def sdr_tests sdr_defs)

lemma final_has_data_iff:
  "IMD_SDR_HAS_DATA (final_sflag_at wo t i) \<longleftrightarrow> IMD_SDR_HAS_DATA (sflag t ! i)"
  by (cases "compression_mode wo")
     (auto simp: final_sflag_at_def Let_def sdr_tests sdr_defs)

lemma final_has_dam_iff:
  "IMD_SDR_HAS_DAM (final_sflag_at wo t i) \<longleftrightarrow>
     IMD_SDR_HAS_DATA (sflag t ! i) \<and> IMD_SDR_HAS_DAM (sflag t ! i) \<and> \<not> force_non_deleted wo"
  by (cases "compression_mode wo")
     (auto simp: final_sflag_at_def Let_def sdr_tests sdr_defs)

lemma final_has_err_iff:
  "IMD_SDR_HAS_ERR (final_sflag_at wo t i) \<longleftrightarrow>
     IMD_SDR_HAS_DATA (sflag t ! i) \<and> IMD_SDR_HAS_ERR (sflag t ! i) \<and> \<not> force_non_bad wo"
  by (cases "compression_mode wo")
     (auto simp: final_sflag_at_def Let_def sdr_tests sdr_defs)

text \<open>The same four tests applied to the flag that the writer emits.\<close>

lemma write_compressed_iff:
  "IMD_SDR_IS_COMPRESSED (fst (write_sector wo f bs)) \<longleftrightarrow>
     IMD_SDR_HAS_DATA f \<and> fst (imd_is_uniform bs) \<and>
     (compression_mode wo = IMD_COMPRESSION_FORCE_COMPRESS \<or>
      compression_mode wo = IMD_COMPRESSION_AS_READ \<and> IMD_SDR_IS_COMPRESSED f)"
  by (cases "compression_mode wo")
     (auto simp: write_sector_def encode_sector_def sector_flag_value_def sdr_tests sdr_defs)

lemma write_has_data_iff:
  "IMD_SDR_HAS_DATA (fst (write_sector wo f bs)) \<longleftrightarrow> IMD_SDR_HAS_DATA f"
  by (cases "compression_mode wo")
     (auto simp: write_sector_def encode_sector_def sector_flag_value_def sdr_tests sdr_defs)

lemma write_has_dam_iff:
  "IMD_SDR_HAS_DAM (fst (write_sector wo f bs)) \<longleftrightarrow>
     IMD_SDR_HAS_DATA f \<and> IMD_SDR_HAS_DAM f \<and> \<not> force_non_deleted wo"
  by (cases "compression_mode wo")
     (auto simp: write_sector_def encode_sector_def sector_flag_value_def sdr_tests sdr_defs)

lemma write_has_err_iff:
  "IMD_SDR_HAS_ERR (fst (write_sector wo f bs)) \<longleftrightarrow>
     IMD_SDR_HAS_DATA f \<and> IMD_SDR_HAS_ERR f \<and> \<not> force_non_bad wo"
  by (cases "compression_mode wo")
     (auto simp: write_sector_def encode_sector_def sector_flag_value_def sdr_tests sdr_defs)

lemma write_payload:
  "snd (write_sector wo f bs) =
     (if IMD_SDR_HAS_DATA f then snd (encode_sector bs (compression_mode wo) f) else [])"
  by (simp add: write_sector_def split: prod.splits)

text \<open>The flag that imdu.c computes after the write is the flag that the writer emits,
  when the track buffer holds the bytes of the slot.\<close>

lemma final_sflag_is_written_flag:
  assumes "data t \<noteq> None" and "0 < sector_size t"
    and "(i + 1) * unat (sector_size t) \<le> data_size t"
  shows "final_sflag_at wo t i = fst (write_track_sector wo t i)"
proof -
  from assms have u: "is_uniform_sector t i = fst (imd_is_uniform (sector_bytes t i))"
    by (simp add: is_uniform_sector_def)
  show ?thesis
    unfolding final_sflag_at_def write_track_sector_def write_sector_def encode_sector_def
      sector_flag_value_def Let_def u
    by (cases "compression_mode wo") (simp_all add: sdr_defs)
qed

text \<open>Evaluation of the example track.\<close>

lemma example_as_read:
  "final_sflag (example_write_opts IMD_COMPRESSION_AS_READ False False) example_track = [1, 2, 7]"
  by code_simp

lemma example_force_compress:
  "final_sflag (example_write_opts IMD_COMPRESSION_FORCE_COMPRESS False False) example_track
   = [2, 2, 7]"
  by code_simp

lemma example_force_clear:
  "final_sflag (example_write_opts IMD_COMPRESSION_AS_READ True True) example_track = [1, 2, 1]"
  by code_simp

lemma example_sector_0: "sector_bytes example_track 0 = replicate 128 0xAA"
  by code_simp

lemma example_sector_2_mixed: "sector_bytes example_track 2 \<noteq> replicate 128 v"
proof
  assume eq: "sector_bytes example_track 2 = replicate 128 v"
  have "sector_bytes example_track 2 ! 0 = 0x01" "sector_bytes example_track 2 ! 1 = 0xCC"
    by code_simp+
  with eq have "v = 0x01" "v = 0xCC" by simp_all
  then show False by simp
qed

lemma example_written_as_read:
  "map (\<lambda>i. fst (write_track_sector (example_write_opts IMD_COMPRESSION_AS_READ False False)
                    example_track i)) [0, 1, 2] = [1, 2, 7]"
  by code_simp

lemma example_written_force_clear:
  "map (\<lambda>i. fst (write_track_sector (example_write_opts IMD_COMPRESSION_AS_READ True True)
                    example_track i)) [0, 1, 2] = [1, 2, 1]"
  by code_simp

text \<open>
  Claim C3. Under the preserve-as-read policy, the flag emitted for a sector slot that
  holds data is a compressed one exactly when the original flag of the slot was already
  a compressed one and the bytes of the slot are uniform. A slot read as normal is
  emitted with a flag that is not compressed, and with all of its bytes as payload,
  whatever the bytes are. The flag that imdu.c computes for its statistics follows the
  same rule, and it is the emitted flag when the track buffer holds the bytes of the slot.
\<close>

theorem as_read_keeps_normal_sectors_normal:
  assumes "compression_mode wo = IMD_COMPRESSION_AS_READ"
    and "i < unat (num_sectors t)"
    and "IMD_SDR_HAS_DATA (sflag t ! i)"
  shows "(IMD_SDR_IS_COMPRESSED (fst (write_track_sector wo t i)) \<longleftrightarrow>
            IMD_SDR_IS_COMPRESSED (sflag t ! i) \<and> fst (imd_is_uniform (sector_bytes t i)))
       \<and> (\<not> IMD_SDR_IS_COMPRESSED (sflag t ! i) \<longrightarrow>
            \<not> IMD_SDR_IS_COMPRESSED (fst (write_track_sector wo t i))
            \<and> snd (write_track_sector wo t i) = sector_bytes t i)
       \<and> (IMD_SDR_IS_COMPRESSED (final_sflag wo t ! i) \<longleftrightarrow>
            IMD_SDR_IS_COMPRESSED (sflag t ! i) \<and> is_uniform_sector t i)
       \<and> (data t \<noteq> None \<and> 0 < sector_size t \<and> (i + 1) * unat (sector_size t) \<le> data_size t
            \<longrightarrow> final_sflag wo t ! i = fst (write_track_sector wo t i))"
proof -
  have w: "IMD_SDR_IS_COMPRESSED (fst (write_track_sector wo t i)) \<longleftrightarrow>
            IMD_SDR_IS_COMPRESSED (sflag t ! i) \<and> fst (imd_is_uniform (sector_bytes t i))"
    using assms(1,3) by (auto simp: write_track_sector_def write_compressed_iff)
  have p: "snd (write_track_sector wo t i) = sector_bytes t i"
    if "\<not> IMD_SDR_IS_COMPRESSED (sflag t ! i)"
    using that assms(1,3)
    by (simp add: write_track_sector_def write_payload encode_sector_def)
  have f: "IMD_SDR_IS_COMPRESSED (final_sflag wo t ! i) \<longleftrightarrow>
            IMD_SDR_IS_COMPRESSED (sflag t ! i) \<and> is_uniform_sector t i"
    using assms by (auto simp: final_sflag_nth final_compressed_iff)
  have e: "final_sflag wo t ! i = fst (write_track_sector wo t i)"
    if "data t \<noteq> None \<and> 0 < sector_size t \<and> (i + 1) * unat (sector_size t) \<le> data_size t"
    using that assms(2) by (simp add: final_sflag_nth final_sflag_is_written_flag)
  from w p f e show ?thesis by blast
qed

theorem as_read_keeps_normal_sectors_normal_witness:
  "compression_mode (example_write_opts IMD_COMPRESSION_AS_READ False False)
     = IMD_COMPRESSION_AS_READ
   \<and> 0 < unat (num_sectors example_track)
   \<and> IMD_SDR_HAS_DATA (sflag example_track ! 0)
   \<and> \<not> IMD_SDR_IS_COMPRESSED (sflag example_track ! 0)
   \<and> fst (imd_is_uniform (sector_bytes example_track 0))
   \<and> data example_track \<noteq> None \<and> 0 < sector_size example_track
   \<and> (0 + 1) * unat (sector_size example_track) \<le> data_size example_track
   \<and> \<not> IMD_SDR_IS_COMPRESSED
         (fst (write_track_sector (example_write_opts IMD_COMPRESSION_AS_READ False False)
                 example_track 0))
   \<and> snd (write_track_sector (example_write_opts IMD_COMPRESSION_AS_READ False False)
            example_track 0) = sector_bytes example_track 0
   \<and> final_sflag (example_write_opts IMD_COMPRESSION_AS_READ False False) example_track ! 0
       = fst (write_track_sector (example_write_opts IMD_COMPRESSION_AS_READ False False)
                example_track 0)"
proof -
  let ?wo = "example_write_opts IMD_COMPRESSION_AS_READ False False"
  have h1: "compression_mode ?wo = IMD_COMPRESSION_AS_READ"
    by (simp add: example_write_opts_def)
  have h2: "0 < unat (num_sectors example_track)"
    by (simp add: example_track_def)
  have h3: "IMD_SDR_HAS_DATA (sflag example_track ! 0)"
    by (simp add: example_track_def sdr_tests sdr_defs)
  have h4: "\<not> IMD_SDR_IS_COMPRESSED (sflag example_track ! 0)"
    by (simp add: example_track_def sdr_tests sdr_defs)
  have h5: "fst (imd_is_uniform (sector_bytes example_track 0))"
    by (simp add: example_sector_0 imd_is_uniform_replicate)
  have h6: "data example_track \<noteq> None" "0 < sector_size example_track"
    "(0 + 1) * unat (sector_size example_track) \<le> data_size example_track"
    by (simp_all add: example_track_def)
  note inst = as_read_keeps_normal_sectors_normal [OF h1 h2 h3]
  from inst h4 have r1: "\<not> IMD_SDR_IS_COMPRESSED (fst (write_track_sector ?wo example_track 0))"
    and r2: "snd (write_track_sector ?wo example_track 0) = sector_bytes example_track 0"
    by blast+
  from inst h6 have r3: "final_sflag ?wo example_track ! 0
       = fst (write_track_sector ?wo example_track 0)"
    by blast
  show ?thesis
    by (intro conjI) (fact h1 h2 h3 h4 h5 h6 r1 r2 r3)+
qed

text \<open>
  Claim C4. Under the force-compress policy, a sector slot that holds data and whose
  \<open>sector_size\<close> bytes all equal \<open>v\<close> is given a compressed final flag, its encoding is the
  single byte \<open>v\<close>, and decoding that byte under the final flag gives \<open>sector_size\<close> copies
  of \<open>v\<close>. A slot whose bytes are not all identical is given a normal (not compressed)
  final flag and is encoded by its \<open>sector_size\<close> bytes, which decode to themselves.
\<close>

theorem force_compress_uniform_sector:
  assumes "compression_mode wo = IMD_COMPRESSION_FORCE_COMPRESS"
    and "i < unat (num_sectors t)"
    and "IMD_SDR_HAS_DATA (sflag t ! i)"
    and "data t \<noteq> None"
    and "0 < sector_size t"
    and "(i + 1) * unat (sector_size t) \<le> data_size t"
  shows "(sector_bytes t i = replicate (unat (sector_size t)) v \<longrightarrow>
            IMD_SDR_IS_COMPRESSED (final_sflag wo t ! i)
            \<and> encode_sector (sector_bytes t i) (compression_mode wo) (sflag t ! i) = (True, [v])
            \<and> decode_sector (final_sflag wo t ! i) [v] (unat (sector_size t)) fb
                = Inr (replicate (unat (sector_size t)) v))
       \<and> (length (sector_bytes t i) = unat (sector_size t)
            \<and> (\<forall>w. sector_bytes t i \<noteq> replicate (unat (sector_size t)) w) \<longrightarrow>
            \<not> IMD_SDR_IS_COMPRESSED (final_sflag wo t ! i)
            \<and> IMD_SDR_HAS_DATA (final_sflag wo t ! i)
            \<and> encode_sector (sector_bytes t i) (compression_mode wo) (sflag t ! i)
                = (False, sector_bytes t i)
            \<and> decode_sector (final_sflag wo t ! i) (sector_bytes t i) (unat (sector_size t))
                fb = Inr (sector_bytes t i))"
proof -
  let ?n = "unat (sector_size t)"
  from assms(5) have n: "0 < ?n" by (simp add: word_less_nat_alt)
  from assms(4-6) have u: "is_uniform_sector t i = fst (imd_is_uniform (sector_bytes t i))"
    by (simp add: is_uniform_sector_def)
  have fin: "final_sflag wo t ! i = final_sflag_at wo t i"
    using assms(2) by (rule final_sflag_nth)
  have a: "sector_bytes t i = replicate ?n v \<longrightarrow>
            IMD_SDR_IS_COMPRESSED (final_sflag wo t ! i)
            \<and> encode_sector (sector_bytes t i) (compression_mode wo) (sflag t ! i) = (True, [v])
            \<and> decode_sector (final_sflag wo t ! i) [v] ?n fb = Inr (replicate ?n v)"
  proof
    assume eq: "sector_bytes t i = replicate ?n v"
    from eq n have un: "imd_is_uniform (sector_bytes t i) = (True, v)"
      by (simp add: imd_is_uniform_replicate)
    with u assms(1,3) have c: "IMD_SDR_IS_COMPRESSED (final_sflag_at wo t i)"
      by (simp add: final_compressed_iff)
    have e: "encode_sector (sector_bytes t i) (compression_mode wo) (sflag t ! i) = (True, [v])"
      using un assms(1) by (simp add: encode_sector_def)
    have d: "decode_sector (final_sflag_at wo t i) [v] ?n fb = Inr (replicate ?n v)"
      using c by (simp add: decode_sector_def)
    from c e d show "IMD_SDR_IS_COMPRESSED (final_sflag wo t ! i)
            \<and> encode_sector (sector_bytes t i) (compression_mode wo) (sflag t ! i) = (True, [v])
            \<and> decode_sector (final_sflag wo t ! i) [v] ?n fb = Inr (replicate ?n v)"
      by (simp only: fin simp_thms)
  qed
  have b: "length (sector_bytes t i) = ?n \<and> (\<forall>w. sector_bytes t i \<noteq> replicate ?n w) \<longrightarrow>
            \<not> IMD_SDR_IS_COMPRESSED (final_sflag wo t ! i)
            \<and> IMD_SDR_HAS_DATA (final_sflag wo t ! i)
            \<and> encode_sector (sector_bytes t i) (compression_mode wo) (sflag t ! i)
                = (False, sector_bytes t i)
            \<and> decode_sector (final_sflag wo t ! i) (sector_bytes t i) ?n fb
                = Inr (sector_bytes t i)"
  proof
    assume h: "length (sector_bytes t i) = ?n \<and> (\<forall>w. sector_bytes t i \<noteq> replicate ?n w)"
    then have len: "length (sector_bytes t i) = ?n"
      and mixed: "\<forall>w. sector_bytes t i \<noteq> replicate ?n w" by simp_all
    from len mixed have nu: "\<not> fst (imd_is_uniform (sector_bytes t i))"
      by (simp add: imd_is_uniform_iff)
    with u have c: "\<not> IMD_SDR_IS_COMPRESSED (final_sflag_at wo t i)"
      by (simp add: final_compressed_iff)
    from assms(3) have d: "IMD_SDR_HAS_DATA (final_sflag_at wo t i)"
      by (simp add: final_has_data_iff)
    have e: "encode_sector (sector_bytes t i) (compression_mode wo) (sflag t ! i)
                = (False, sector_bytes t i)"
      using nu by (simp add: encode_sector_def)
    have r: "decode_sector (final_sflag_at wo t i) (sector_bytes t i) ?n fb
                = Inr (sector_bytes t i)"
      using c d len by (simp add: decode_sector_def)
    from c d e r show "\<not> IMD_SDR_IS_COMPRESSED (final_sflag wo t ! i)
            \<and> IMD_SDR_HAS_DATA (final_sflag wo t ! i)
            \<and> encode_sector (sector_bytes t i) (compression_mode wo) (sflag t ! i)
                = (False, sector_bytes t i)
            \<and> decode_sector (final_sflag wo t ! i) (sector_bytes t i) ?n fb
                = Inr (sector_bytes t i)"
      by (simp only: fin simp_thms)
  qed
  from a b show ?thesis by (rule conjI)
qed

theorem force_compress_uniform_sector_witness:
  "compression_mode (example_write_opts IMD_COMPRESSION_FORCE_COMPRESS False False)
     = IMD_COMPRESSION_FORCE_COMPRESS
   \<and> 0 < unat (num_sectors example_track)
   \<and> IMD_SDR_HAS_DATA (sflag example_track ! 0)
   \<and> data example_track \<noteq> None
   \<and> 0 < sector_size example_track
   \<and> (0 + 1) * unat (sector_size example_track) \<le> data_size example_track
   \<and> sector_bytes example_track 0 = replicate (unat (sector_size example_track)) 0xAA
   \<and> IMD_SDR_IS_COMPRESSED
       (final_sflag (example_write_opts IMD_COMPRESSION_FORCE_COMPRESS False False)
          example_track ! 0)
   \<and> encode_sector (sector_bytes example_track 0) IMD_COMPRESSION_FORCE_COMPRESS
       (sflag example_track ! 0) = (True, [0xAA])
   \<and> decode_sector
       (final_sflag (example_write_opts IMD_COMPRESSION_FORCE_COMPRESS False False)
          example_track ! 0) [0xAA] 128 0xE5 = Inr (replicate 128 0xAA)"
proof -
  let ?wo = "example_write_opts IMD_COMPRESSION_FORCE_COMPRESS False False"
  have h1: "compression_mode ?wo = IMD_COMPRESSION_FORCE_COMPRESS"
    by (simp add: example_write_opts_def)
  have h2: "0 < unat (num_sectors example_track)"
    by (simp add: example_track_def)
  have h3: "IMD_SDR_HAS_DATA (sflag example_track ! 0)"
    by (simp add: example_track_def sdr_tests sdr_defs)
  have h4: "data example_track \<noteq> None"
    by (simp add: example_track_def)
  have h5: "0 < sector_size example_track"
    by (simp add: example_track_def)
  have h6: "(0 + 1) * unat (sector_size example_track) \<le> data_size example_track"
    by (simp add: example_track_def)
  have sz: "unat (sector_size example_track) = 128"
    by (simp add: example_track_def)
  have h7: "sector_bytes example_track 0 = replicate (unat (sector_size example_track)) 0xAA"
    by (simp only: sz example_sector_0)
  from force_compress_uniform_sector [OF h1 h2 h3 h4 h5 h6, of "0xAA" "0xE5"] h1 h2 h3 h4 h5 h6 h7
  show ?thesis by (simp add: sz)
qed

text \<open>
  Claim C5. The flag emitted for a sector slot carries the deleted-mark marker exactly
  when the slot holds data, its original flag carries that marker and \<open>force_non_deleted\<close>
  is not set; it carries the error marker exactly when the slot holds data, its original
  flag carries that marker and \<open>force_non_bad\<close> is not set. So with \<open>force_non_deleted\<close>
  set no emitted flag carries the deleted-mark marker, and with \<open>force_non_bad\<close> set none
  carries the error marker. Whether the emitted flag says data present, whether it says
  compressed, and the emitted payload are the same for every setting of the two options.
  The flag that imdu.c computes for its statistics follows the same rules.
\<close>

theorem force_options_clear_markers_only:
  assumes "i < unat (num_sectors t)"
  shows "(IMD_SDR_HAS_DAM (fst (write_track_sector wo t i)) \<longleftrightarrow>
            IMD_SDR_HAS_DATA (sflag t ! i) \<and> IMD_SDR_HAS_DAM (sflag t ! i)
            \<and> \<not> force_non_deleted wo)
       \<and> (IMD_SDR_HAS_ERR (fst (write_track_sector wo t i)) \<longleftrightarrow>
            IMD_SDR_HAS_DATA (sflag t ! i) \<and> IMD_SDR_HAS_ERR (sflag t ! i)
            \<and> \<not> force_non_bad wo)
       \<and> (IMD_SDR_HAS_DATA
             (fst (write_track_sector (wo\<lparr>force_non_bad := nb, force_non_deleted := nd\<rparr>) t i))
           \<longleftrightarrow> IMD_SDR_HAS_DATA (sflag t ! i))
       \<and> (IMD_SDR_IS_COMPRESSED
             (fst (write_track_sector (wo\<lparr>force_non_bad := nb, force_non_deleted := nd\<rparr>) t i))
           \<longleftrightarrow> IMD_SDR_IS_COMPRESSED (fst (write_track_sector wo t i)))
       \<and> snd (write_track_sector (wo\<lparr>force_non_bad := nb, force_non_deleted := nd\<rparr>) t i)
           = snd (write_track_sector wo t i)
       \<and> (IMD_SDR_HAS_DAM (final_sflag wo t ! i) \<longleftrightarrow>
            IMD_SDR_HAS_DATA (sflag t ! i) \<and> IMD_SDR_HAS_DAM (sflag t ! i)
            \<and> \<not> force_non_deleted wo)
       \<and> (IMD_SDR_HAS_ERR (final_sflag wo t ! i) \<longleftrightarrow>
            IMD_SDR_HAS_DATA (sflag t ! i) \<and> IMD_SDR_HAS_ERR (sflag t ! i)
            \<and> \<not> force_non_bad wo)
       \<and> (IMD_SDR_HAS_DATA
             (final_sflag (wo\<lparr>force_non_bad := nb, force_non_deleted := nd\<rparr>) t ! i)
           \<longleftrightarrow> IMD_SDR_HAS_DATA (sflag t ! i))
       \<and> (IMD_SDR_IS_COMPRESSED
             (final_sflag (wo\<lparr>force_non_bad := nb, force_non_deleted := nd\<rparr>) t ! i)
           \<longleftrightarrow> IMD_SDR_IS_COMPRESSED (final_sflag wo t ! i))
       \<and> (data t \<noteq> None \<and> 0 < sector_size t \<and> (i + 1) * unat (sector_size t) \<le> data_size t
            \<longrightarrow> final_sflag wo t ! i = fst (write_track_sector wo t i))"
proof -
  let ?wo' = "wo\<lparr>force_non_bad := nb, force_non_deleted := nd\<rparr>"
  have w1: "IMD_SDR_HAS_DAM (fst (write_track_sector wo t i)) \<longleftrightarrow>
            IMD_SDR_HAS_DATA (sflag t ! i) \<and> IMD_SDR_HAS_DAM (sflag t ! i)
            \<and> \<not> force_non_deleted wo"
    by (simp add: write_track_sector_def write_has_dam_iff)
  have w2: "IMD_SDR_HAS_ERR (fst (write_track_sector wo t i)) \<longleftrightarrow>
            IMD_SDR_HAS_DATA (sflag t ! i) \<and> IMD_SDR_HAS_ERR (sflag t ! i)
            \<and> \<not> force_non_bad wo"
    by (simp add: write_track_sector_def write_has_err_iff)
  have w3: "IMD_SDR_HAS_DATA (fst (write_track_sector ?wo' t i))
            \<longleftrightarrow> IMD_SDR_HAS_DATA (sflag t ! i)"
    by (simp add: write_track_sector_def write_has_data_iff)
  have w4: "IMD_SDR_IS_COMPRESSED (fst (write_track_sector ?wo' t i))
            \<longleftrightarrow> IMD_SDR_IS_COMPRESSED (fst (write_track_sector wo t i))"
    by (simp add: write_track_sector_def write_compressed_iff)
  have w5: "snd (write_track_sector ?wo' t i) = snd (write_track_sector wo t i)"
    by (simp add: write_track_sector_def write_payload)
  have f1: "IMD_SDR_HAS_DAM (final_sflag wo t ! i) \<longleftrightarrow>
            IMD_SDR_HAS_DATA (sflag t ! i) \<and> IMD_SDR_HAS_DAM (sflag t ! i)
            \<and> \<not> force_non_deleted wo"
    using assms by (simp add: final_sflag_nth final_has_dam_iff)
  have f2: "IMD_SDR_HAS_ERR (final_sflag wo t ! i) \<longleftrightarrow>
            IMD_SDR_HAS_DATA (sflag t ! i) \<and> IMD_SDR_HAS_ERR (sflag t ! i)
            \<and> \<not> force_non_bad wo"
    using assms by (simp add: final_sflag_nth final_has_err_iff)
  have f3: "IMD_SDR_HAS_DATA (final_sflag ?wo' t ! i) \<longleftrightarrow> IMD_SDR_HAS_DATA (sflag t ! i)"
    using assms by (simp add: final_sflag_nth final_has_data_iff)
  have f4: "IMD_SDR_IS_COMPRESSED (final_sflag ?wo' t ! i)
            \<longleftrightarrow> IMD_SDR_IS_COMPRESSED (final_sflag wo t ! i)"
    using assms by (simp add: final_sflag_nth final_compressed_iff)
  have e: "data t \<noteq> None \<and> 0 < sector_size t \<and> (i + 1) * unat (sector_size t) \<le> data_size t
            \<longrightarrow> final_sflag wo t ! i = fst (write_track_sector wo t i)"
    using assms by (simp add: final_sflag_nth final_sflag_is_written_flag)
  show ?thesis
    by (intro conjI) (fact w1 w2 w3 w4 w5 f1 f2 f3 f4 e)+
qed

theorem force_options_clear_markers_only_witness:
  "2 < unat (num_sectors example_track)
   \<and> force_non_deleted (example_write_opts IMD_COMPRESSION_AS_READ True True)
   \<and> force_non_bad (example_write_opts IMD_COMPRESSION_AS_READ True True)
   \<and> IMD_SDR_HAS_DAM (sflag example_track ! 2) \<and> IMD_SDR_HAS_ERR (sflag example_track ! 2)
   \<and> data example_track \<noteq> None \<and> 0 < sector_size example_track
   \<and> (2 + 1) * unat (sector_size example_track) \<le> data_size example_track
   \<and> \<not> IMD_SDR_HAS_DAM
         (fst (write_track_sector (example_write_opts IMD_COMPRESSION_AS_READ True True)
                 example_track 2))
   \<and> \<not> IMD_SDR_HAS_ERR
         (fst (write_track_sector (example_write_opts IMD_COMPRESSION_AS_READ True True)
                 example_track 2))
   \<and> IMD_SDR_HAS_DAM
         (fst (write_track_sector (example_write_opts IMD_COMPRESSION_AS_READ False False)
                 example_track 2))
   \<and> IMD_SDR_HAS_ERR
         (fst (write_track_sector (example_write_opts IMD_COMPRESSION_AS_READ False False)
                 example_track 2))
   \<and> final_sflag (example_write_opts IMD_COMPRESSION_AS_READ True True) example_track ! 2
       = fst (write_track_sector (example_write_opts IMD_COMPRESSION_AS_READ True True)
                example_track 2)"
proof -
  let ?wo = "example_write_opts IMD_COMPRESSION_AS_READ True True"
  let ?wk = "example_write_opts IMD_COMPRESSION_AS_READ False False"
  have h1: "2 < unat (num_sectors example_track)"
    by (simp add: example_track_def)
  have h2: "force_non_deleted ?wo" "force_non_bad ?wo"
    by (simp_all add: example_write_opts_def)
  have k2: "\<not> force_non_deleted ?wk" "\<not> force_non_bad ?wk"
    by (simp_all add: example_write_opts_def)
  have h3: "IMD_SDR_HAS_DAM (sflag example_track ! 2)" "IMD_SDR_HAS_ERR (sflag example_track ! 2)"
    by (simp_all add: example_track_def sdr_tests sdr_defs)
  have h4: "IMD_SDR_HAS_DATA (sflag example_track ! 2)"
    by (simp add: example_track_def sdr_tests sdr_defs)
  have h6: "data example_track \<noteq> None" "0 < sector_size example_track"
    "(2 + 1) * unat (sector_size example_track) \<le> data_size example_track"
    by (simp_all add: example_track_def)
  note inst = force_options_clear_markers_only [OF h1, of ?wo True True]
  note kept = force_options_clear_markers_only [OF h1, of ?wk False False]
  from inst h2 have r1: "\<not> IMD_SDR_HAS_DAM (fst (write_track_sector ?wo example_track 2))"
    and r2: "\<not> IMD_SDR_HAS_ERR (fst (write_track_sector ?wo example_track 2))"
    by blast+
  from kept k2 h3 h4 have r3: "IMD_SDR_HAS_DAM (fst (write_track_sector ?wk example_track 2))"
    and r4: "IMD_SDR_HAS_ERR (fst (write_track_sector ?wk example_track 2))"
    by blast+
  from inst h6 have r5: "final_sflag ?wo example_track ! 2
       = fst (write_track_sector ?wo example_track 2)"
    by blast
  show ?thesis
    by (intro conjI) (fact h1 h2 h3 h6 r1 r2 r3 r4 r5)+
qed
subsection \<open>imdcmp: one file ends before the other\<close>

lemma or_and_mask_zero:
  fixes x y m :: u32
  shows "(x OR y) AND m = 0 \<longleftrightarrow> x AND m = 0 \<and> y AND m = 0"
  by (simp add: bit.conj_disj_distrib2 or_eq_0_iff)

lemma struct_bit_is_hard:
  fixes d :: u32
  assumes "d AND C_DIFF_FILE_STRUCT \<noteq> 0"
  shows "d AND C_MASK_HARD_DIFF \<noteq> 0"
proof
  assume z: "d AND C_MASK_HARD_DIFF = 0"
  have "C_MASK_HARD_DIFF AND C_DIFF_FILE_STRUCT = C_DIFF_FILE_STRUCT"
    by (simp add: C_MASK_HARD_DIFF_def C_DIFF_FILE_STRUCT_def C_DIFF_COMMENT_def
        C_DIFF_TRACK_HDR_def C_DIFF_TRACK_MAP_def C_DIFF_TRACK_DATA_def C_DIFF_TRACK_FLAG_def)
  then have "d AND C_DIFF_FILE_STRUCT = (d AND C_MASK_HARD_DIFF) AND C_DIFF_FILE_STRUCT"
    by (simp add: and.assoc)
  with z assms show False by simp
qed

text \<open>The loop body in the three situations that matter: file 1 at its end and file 2
  holding a track, the converse, and both holding a track.\<close>

lemma cmp_iteration_eof1:
  assumes "\<not> eof1 s" "\<not> eof2 s" "fimd1 s = []" "fimd2 s = Track t # rest"
  shows "fst (cmp_iteration opts il s) = False"
    and "diff_flags (snd (cmp_iteration opts il s)) = diff_flags s OR C_DIFF_FILE_STRUCT"
    and "final_return_code (snd (cmp_iteration opts il s)) = final_return_code s"
  using assms by (simp_all add: cmp_iteration_def load_step_def Let_def)

lemma cmp_iteration_eof2:
  assumes "\<not> eof1 s" "\<not> eof2 s" "fimd1 s = Track t # rest" "fimd2 s = []"
  shows "fst (cmp_iteration opts il s) = False"
    and "diff_flags (snd (cmp_iteration opts il s)) = diff_flags s OR C_DIFF_FILE_STRUCT"
    and "final_return_code (snd (cmp_iteration opts il s)) = final_return_code s"
  using assms by (simp_all add: cmp_iteration_def load_step_def Let_def)

lemma cmp_iteration_both:
  assumes "\<not> eof1 s" "\<not> eof2 s" "fimd1 s = Track a # r1" "fimd2 s = Track b # r2"
  shows "fst (cmp_iteration opts il s) \<longleftrightarrow>
           (diff_flags s OR compare_tracks opts il (a\<lparr>loaded := True\<rparr>) (b\<lparr>loaded := True\<rparr>))
             AND C_MASK_HARD_DIFF = 0"
    and "diff_flags (snd (cmp_iteration opts il s)) =
           diff_flags s OR compare_tracks opts il (a\<lparr>loaded := True\<rparr>) (b\<lparr>loaded := True\<rparr>)"
    and "final_return_code (snd (cmp_iteration opts il s)) = final_return_code s"
    and "fimd1 (snd (cmp_iteration opts il s)) = r1"
    and "fimd2 (snd (cmp_iteration opts il s)) = r2"
    and "\<not> eof1 (snd (cmp_iteration opts il s))"
    and "\<not> eof2 (snd (cmp_iteration opts il s))"
  using assms by (simp_all add: cmp_iteration_def load_step_def Let_def)

lemma cmp_loop_unfold:
  "\<not> eof1 s \<Longrightarrow>
     cmp_loop opts il s =
       (if fst (cmp_iteration opts il s) then cmp_loop opts il (snd (cmp_iteration opts il s))
        else snd (cmp_iteration opts il s))"
  by (subst cmp_loop.simps) (simp add: Let_def)

lemma cmp_loop_first_ends:
  assumes "length ts1 = length ts2"
    and "ts1 \<noteq> [] \<longrightarrow> diff_flags s AND C_MASK_HARD_DIFF = 0"
    and "\<forall>k < length ts1.
           compare_tracks opts il ((ts1 ! k)\<lparr>loaded := True\<rparr>) ((ts2 ! k)\<lparr>loaded := True\<rparr>)
             AND C_MASK_HARD_DIFF = 0"
    and "\<not> eof1 s" "\<not> eof2 s"
    and "fimd1 s = map Track ts1" "fimd2 s = map Track ts2 @ Track t # rest"
  shows "final_return_code (cmp_loop opts il s) = final_return_code s
       \<and> diff_flags (cmp_loop opts il s) AND C_DIFF_FILE_STRUCT \<noteq> 0"
  using assms
proof (induction ts1 arbitrary: ts2 s)
  case Nil
  then have f: "fimd1 s = []" "fimd2 s = Track t # rest" by simp_all
  from Nil.prems(4,5) f show ?case
    by (simp add: cmp_loop_unfold cmp_iteration_eof1 C_DIFF_FILE_STRUCT_def)
next
  case (Cons a as)
  then obtain b bs where ts2: "ts2 = b # bs" by (cases ts2) auto
  let ?c = "compare_tracks opts il (a\<lparr>loaded := True\<rparr>) (b\<lparr>loaded := True\<rparr>)"
  let ?s' = "snd (cmp_iteration opts il s)"
  from Cons.prems(6,7) ts2
  have f: "fimd1 s = Track a # map Track as" "fimd2 s = Track b # (map Track bs @ Track t # rest)"
    by simp_all
  note it = cmp_iteration_both [OF Cons.prems(4,5) f, of opts il]
  from Cons.prems(3) ts2 have c0: "?c AND C_MASK_HARD_DIFF = 0" by fastforce
  from Cons.prems(2) have d0: "diff_flags s AND C_MASK_HARD_DIFF = 0" by simp
  from c0 d0 have go: "fst (cmp_iteration opts il s)"
    by (simp add: it(1) or_and_mask_zero)
  from c0 d0 have d1: "diff_flags ?s' AND C_MASK_HARD_DIFF = 0"
    by (simp add: it(2) or_and_mask_zero)
  from Cons.prems(1) ts2 have len: "length as = length bs" by simp
  from Cons.prems(3) ts2
  have rest_ok: "\<forall>k < length as.
      compare_tracks opts il ((as ! k)\<lparr>loaded := True\<rparr>) ((bs ! k)\<lparr>loaded := True\<rparr>)
        AND C_MASK_HARD_DIFF = 0"
    by fastforce
  from Cons.IH [OF len _ rest_ok it(6) it(7) it(4) it(5)] d1
  have "final_return_code (cmp_loop opts il ?s') = final_return_code ?s'
      \<and> diff_flags (cmp_loop opts il ?s') AND C_DIFF_FILE_STRUCT \<noteq> 0"
    by simp
  with go Cons.prems(4) show ?case
    by (simp add: cmp_loop_unfold [of s] it(3))
qed

lemma cmp_loop_second_ends:
  assumes "length ts1 = length ts2"
    and "ts1 \<noteq> [] \<longrightarrow> diff_flags s AND C_MASK_HARD_DIFF = 0"
    and "\<forall>k < length ts1.
           compare_tracks opts il ((ts1 ! k)\<lparr>loaded := True\<rparr>) ((ts2 ! k)\<lparr>loaded := True\<rparr>)
             AND C_MASK_HARD_DIFF = 0"
    and "\<not> eof1 s" "\<not> eof2 s"
    and "fimd1 s = map Track ts1 @ Track t # rest" "fimd2 s = map Track ts2"
  shows "final_return_code (cmp_loop opts il s) = final_return_code s
       \<and> diff_flags (cmp_loop opts il s) AND C_DIFF_FILE_STRUCT \<noteq> 0"
  using assms
proof (induction ts1 arbitrary: ts2 s)
  case Nil
  then have f: "fimd1 s = Track t # rest" "fimd2 s = []" by simp_all
  from Nil.prems(4,5) f show ?case
    by (simp add: cmp_loop_unfold cmp_iteration_eof2 C_DIFF_FILE_STRUCT_def)
next
  case (Cons a as)
  then obtain b bs where ts2: "ts2 = b # bs" by (cases ts2) auto
  let ?c = "compare_tracks opts il (a\<lparr>loaded := True\<rparr>) (b\<lparr>loaded := True\<rparr>)"
  let ?s' = "snd (cmp_iteration opts il s)"
  from Cons.prems(6,7) ts2
  have f: "fimd1 s = Track a # (map Track as @ Track t # rest)" "fimd2 s = Track b # map Track bs"
    by simp_all
  note it = cmp_iteration_both [OF Cons.prems(4,5) f, of opts il]
  from Cons.prems(3) ts2 have c0: "?c AND C_MASK_HARD_DIFF = 0" by fastforce
  from Cons.prems(2) have d0: "diff_flags s AND C_MASK_HARD_DIFF = 0" by simp
  from c0 d0 have go: "fst (cmp_iteration opts il s)"
    by (simp add: it(1) or_and_mask_zero)
  from c0 d0 have d1: "diff_flags ?s' AND C_MASK_HARD_DIFF = 0"
    by (simp add: it(2) or_and_mask_zero)
  from Cons.prems(1) ts2 have len: "length as = length bs" by simp
  from Cons.prems(3) ts2
  have rest_ok: "\<forall>k < length as.
      compare_tracks opts il ((as ! k)\<lparr>loaded := True\<rparr>) ((bs ! k)\<lparr>loaded := True\<rparr>)
        AND C_MASK_HARD_DIFF = 0"
    by fastforce
  from Cons.IH [OF len _ rest_ok it(6) it(7) it(4) it(5)] d1
  have "final_return_code (cmp_loop opts il ?s') = final_return_code ?s'
      \<and> diff_flags (cmp_loop opts il ?s') AND C_DIFF_FILE_STRUCT \<noteq> 0"
    by simp
  with go Cons.prems(4) show ?case
    by (simp add: cmp_loop_unfold [of s] it(3))
qed

lemma cmp_exit_code_struct:
  assumes "final_return_code s = EXIT_MATCH" "diff_flags s AND C_DIFF_FILE_STRUCT \<noteq> 0"
  shows "cmp_exit_code opts s = EXIT_DIFF"
  using assms struct_bit_is_hard [OF assms(2)]
  by (simp add: cmp_exit_code_def EXIT_MATCH_def EXIT_FILE_ERROR_def)

text \<open>
  Claim C8. Two files whose first tracks compare without a hard difference, one of which
  ends cleanly where the other still holds a track: the run of the track loop terminates,
  records \<open>C_DIFF_FILE_STRUCT\<close> in \<open>diff_flags\<close>, and exits with \<open>EXIT_DIFF\<close> (1), not
  with \<open>EXIT_FILE_ERROR\<close> (5). Either file may be the shorter one.
\<close>

theorem eof_mismatch_exits_with_difference:
  assumes "length ts1 = length ts2"
    and "ts1 \<noteq> [] \<longrightarrow> diff0 AND C_MASK_HARD_DIFF = 0"
    and "\<forall>k < length ts1.
           compare_tracks opts il ((ts1 ! k)\<lparr>loaded := True\<rparr>) ((ts2 ! k)\<lparr>loaded := True\<rparr>)
             AND C_MASK_HARD_DIFF = 0"
  shows "fst (imdcmp_tracks opts il n diff0 (map Track ts1) (map Track ts2 @ Track t # rest))
           = EXIT_DIFF
       \<and> snd (imdcmp_tracks opts il n diff0 (map Track ts1) (map Track ts2 @ Track t # rest))
           AND C_DIFF_FILE_STRUCT \<noteq> 0
       \<and> fst (imdcmp_tracks opts il n diff0 (map Track ts1 @ Track t # rest) (map Track ts2))
           = EXIT_DIFF
       \<and> snd (imdcmp_tracks opts il n diff0 (map Track ts1 @ Track t # rest) (map Track ts2))
           AND C_DIFF_FILE_STRUCT \<noteq> 0
       \<and> EXIT_DIFF = 1 \<and> EXIT_FILE_ERROR = 5"
proof -
  let ?s1 = "\<lparr>fimd1 = map Track ts1, fimd2 = map Track ts2 @ Track t # rest,
              track1 = zero_track n, track2 = zero_track n, eof1 = False, eof2 = False,
              diff_flags = diff0, final_return_code = EXIT_MATCH, track_count = 0\<rparr>"
  let ?s2 = "\<lparr>fimd1 = map Track ts1 @ Track t # rest, fimd2 = map Track ts2,
              track1 = zero_track n, track2 = zero_track n, eof1 = False, eof2 = False,
              diff_flags = diff0, final_return_code = EXIT_MATCH, track_count = 0\<rparr>"
  have a: "final_return_code (cmp_loop opts il ?s1) = final_return_code ?s1
         \<and> diff_flags (cmp_loop opts il ?s1) AND C_DIFF_FILE_STRUCT \<noteq> 0"
    by (rule cmp_loop_first_ends [OF assms(1) _ assms(3)]) (simp_all add: assms(2))
  have b: "final_return_code (cmp_loop opts il ?s2) = final_return_code ?s2
         \<and> diff_flags (cmp_loop opts il ?s2) AND C_DIFF_FILE_STRUCT \<noteq> 0"
    by (rule cmp_loop_second_ends [OF assms(1) _ assms(3)]) (simp_all add: assms(2))
  from a have a': "cmp_exit_code opts (cmp_loop opts il ?s1) = EXIT_DIFF"
    by (intro cmp_exit_code_struct) simp_all
  from b have b': "cmp_exit_code opts (cmp_loop opts il ?s2) = EXIT_DIFF"
    by (intro cmp_exit_code_struct) simp_all
  from a b a' b' show ?thesis
    by (simp add: imdcmp_tracks_def Let_def EXIT_DIFF_def EXIT_FILE_ERROR_def)
qed

theorem eof_mismatch_exits_with_difference_witness:
  "length [example_track] = length [example_track]
   \<and> (0 :: u32) AND C_MASK_HARD_DIFF = 0
   \<and> compare_tracks \<lparr>ignore_compression = False, strict_compression = False, warn_error = False\<rparr>
        (\<lambda>t. 1) (example_track\<lparr>loaded := True\<rparr>) (example_track\<lparr>loaded := True\<rparr>)
        AND C_MASK_HARD_DIFF = 0
   \<and> fst (imdcmp_tracks \<lparr>ignore_compression = False, strict_compression = False, warn_error = False\<rparr>
        (\<lambda>t. 1) 256 0 (map Track [example_track])
        (map Track [example_track] @ Track example_track # [])) = 1"
proof -
  let ?opts = "\<lparr>ignore_compression = False, strict_compression = False, warn_error = False\<rparr>"
  let ?il = "\<lambda>t :: ImdTrackInfo. 1 :: int"
  have h1: "length [example_track] = length [example_track]" by simp
  have c: "compare_tracks ?opts ?il (example_track\<lparr>loaded := True\<rparr>)
             (example_track\<lparr>loaded := True\<rparr>) AND C_MASK_HARD_DIFF = 0"
    by code_simp
  have h2: "[example_track] \<noteq> [] \<longrightarrow> (0 :: u32) AND C_MASK_HARD_DIFF = 0" by simp
  have h3: "\<forall>k < length [example_track].
      compare_tracks ?opts ?il (([example_track] ! k)\<lparr>loaded := True\<rparr>)
        (([example_track] ! k)\<lparr>loaded := True\<rparr>) AND C_MASK_HARD_DIFF = 0"
    using c by simp
  from eof_mismatch_exits_with_difference [OF h1 h2 h3, of 256 example_track "[]"] c
  show ?thesis by simp
qed

subsection \<open>imdu: adding missing sectors\<close>

lemma unat_u8_lt_256: "unat (c :: u8) < 256"
  using unsigned_less [of c, where ?'a = nat] by simp

lemma next_free_id_finds:
  fixes f c0 :: u8
  assumes "used ! unat f = 0"
  shows "\<exists>c. next_free_id used c0 = Some c \<and> used ! unat c = 0"
  using assms
proof (induction "unat (f - c0)" arbitrary: c0)
  case 0
  then have "f = c0" by (simp add: unat_0_iff)
  with 0 show ?case by (subst next_free_id.simps) simp
next
  case (Suc n)
  show ?case
  proof (cases "used ! unat c0 = 0")
    case True
    then show ?thesis by (subst next_free_id.simps) simp
  next
    case False
    from Suc.hyps(2) have nz: "f - c0 \<noteq> 0" by (auto simp: unat_0_iff)
    have e: "f - (c0 + 1) = (f - c0) - 1" by simp
    have "unat ((f - c0) - 1) = unat (f - c0) - 1" by (rule unat_minus_one [OF nz])
    then have "unat (f - (c0 + 1)) = unat (f - c0) - 1" by (simp only: e)
    with Suc.hyps(2) have "n = unat (f - (c0 + 1))" by simp
    from Suc.hyps(1) [OF this Suc.prems]
    obtain c where "next_free_id used (c0 + 1) = Some c" "used ! unat c = 0" by blast
    with False show ?thesis by (subst next_free_id.simps) simp
  qed
qed

lemma u8_free_value:
  fixes xs :: "u8 list"
  assumes "length xs < 256"
  shows "\<exists>f. f \<notin> set xs"
proof (rule ccontr)
  assume "\<not> (\<exists>f. f \<notin> set xs)"
  then have "set xs = UNIV" by auto
  then have "card (set xs) = 256" by (simp add: card_word)
  moreover have "card (set xs) \<le> length xs" by (rule card_length)
  ultimately show False using assms by simp
qed

lemma mark_step:
  fixes u :: "u8 list" and a c :: u8
  assumes "length u = 256"
  shows "u[unat a := 1] ! unat c \<noteq> 0 \<longleftrightarrow> c = a \<or> u ! unat c \<noteq> 0"
proof (cases "c = a")
  case True
  with assms unat_u8_lt_256 [of a] show ?thesis by simp
next
  case False
  then have "unat a \<noteq> unat c" by (simp add: word_unat_eq_iff)
  with False show ?thesis by simp
qed

lemma mark_fold:
  fixes xs u :: "u8 list"
  assumes "n \<le> length xs" "length u = 256"
  shows "length (fold (\<lambda>k used. used[unat (xs ! k) := 1]) [0 ..< n] u) = 256
       \<and> (\<forall>c. fold (\<lambda>k used. used[unat (xs ! k) := 1]) [0 ..< n] u ! unat c \<noteq> 0
             \<longleftrightarrow> u ! unat c \<noteq> 0 \<or> c \<in> set (take n xs))"
  using assms(1)
proof (induction n)
  case 0
  with assms(2) show ?case by simp
next
  case (Suc n)
  let ?F = "fold (\<lambda>k used. used[unat (xs ! k) := 1]) [0 ..< n] u"
  from Suc have n: "n < length xs" and len: "length ?F = 256"
    and IH: "\<And>c. ?F ! unat c \<noteq> 0 \<longleftrightarrow> u ! unat c \<noteq> 0 \<or> c \<in> set (take n xs)"
    by simp_all
  have step: "fold (\<lambda>k used. used[unat (xs ! k) := 1]) [0 ..< Suc n] u = ?F[unat (xs ! n) := 1]"
    by simp
  have tk: "set (take (Suc n) xs) = insert (xs ! n) (set (take n xs))"
    using n by (simp add: take_Suc_conv_app_nth)
  show ?case
    unfolding step tk using len by (simp add: mark_step IH)
qed

lemma mark_used_ids_spec:
  assumes "unat (num_sectors t) \<le> length (smap t)"
  shows "length (mark_used_ids t) = 256"
    and "mark_used_ids t ! unat c \<noteq> 0 \<longleftrightarrow> c \<in> set (take (unat (num_sectors t)) (smap t))"
  using mark_fold [OF assms, of "replicate 256 0"] unat_u8_lt_256 [of c]
  by (simp_all add: mark_used_ids_def)

lemma add_one_sector_fields:
  "smap (trk (add_one_sector st c)) = (smap (trk st))[unat (current_physical_idx_for_add st) := c]"
  "sflag (trk (add_one_sector st c)) =
     (sflag (trk st))[unat (current_physical_idx_for_add st) := IMD_SDR_UNAVAILABLE]"
  "cmap (trk (add_one_sector st c)) =
     (if hflag (trk st) AND IMD_HFLAG_CMAP_PRES \<noteq> 0
      then (cmap (trk st))[unat (current_physical_idx_for_add st) := cyl (trk st)]
      else cmap (trk st))"
  "hmap (trk (add_one_sector st c)) =
     (if hflag (trk st) AND IMD_HFLAG_HMAP_PRES \<noteq> 0
      then (hmap (trk st))[unat (current_physical_idx_for_add st) := head (trk st)]
      else hmap (trk st))"
  "hflag (trk (add_one_sector st c)) = hflag (trk st)"
  "cyl (trk (add_one_sector st c)) = cyl (trk st)"
  "head (trk (add_one_sector st c)) = head (trk st)"
  "used_ids (add_one_sector st c) = (used_ids st)[unat c := 1]"
  "current_physical_idx_for_add (add_one_sector st c) = current_physical_idx_for_add st + 1"
  by (simp_all add: add_one_sector_def Let_def)

lemma add_one_sector_inv:
  assumes inv: "add_inv max_spt t0 st"
    and lt: "unat (current_physical_idx_for_add st) < max_spt"
    and nowrap: "unat (current_physical_idx_for_add st) < 255"
    and free: "used_ids st ! unat c = 0"
  shows "add_inv max_spt t0 (add_one_sector st c)"
    and "unat (current_physical_idx_for_add (add_one_sector st c))
           = Suc (unat (current_physical_idx_for_add st))"
proof -
  let ?i = "unat (current_physical_idx_for_add st)"
  let ?n0 = "unat (num_sectors t0)"
  let ?st' = "add_one_sector st c"
  note f = add_one_sector_fields [of st c]
  from inv have len: "length (smap (trk st)) = max_spt" "length (sflag (trk st)) = max_spt"
      "length (cmap (trk st)) = max_spt" "length (hmap (trk st)) = max_spt"
      "length (used_ids st) = 256"
    and same: "hflag (trk st) = hflag t0" "cyl (trk st) = cyl t0" "head (trk st) = head t0"
    and bounds: "?n0 \<le> ?i" "?i \<le> max_spt"
    and old: "take ?n0 (smap (trk st)) = take ?n0 (smap t0)"
    and dist: "distinct (take ?i (smap (trk st)))"
    and used: "\<And>c. used_ids st ! unat c \<noteq> 0 \<longleftrightarrow> c \<in> set (take ?i (smap (trk st)))"
    and flags: "\<And>j. ?n0 \<le> j \<Longrightarrow> j < ?i \<Longrightarrow>
        sflag (trk st) ! j = IMD_SDR_UNAVAILABLE
        \<and> (hflag t0 AND IMD_HFLAG_CMAP_PRES \<noteq> 0 \<longrightarrow> cmap (trk st) ! j = cyl t0)
        \<and> (hflag t0 AND IMD_HFLAG_HMAP_PRES \<noteq> 0 \<longrightarrow> hmap (trk st) ! j = head t0)"
    unfolding add_inv_def by simp_all
  have "unat (current_physical_idx_for_add st) + unat (1 :: u8) < 2 ^ LENGTH(8)"
    using nowrap by simp
  then have "unat (current_physical_idx_for_add st + 1) = ?i + unat (1 :: u8)"
    by (simp only: unat_add_lem)
  then show idx': "unat (current_physical_idx_for_add ?st') = Suc ?i"
    by (simp add: f)
  have cnew: "c \<notin> set (take ?i (smap (trk st)))"
    using used [of c] free by simp
  have tk: "take (Suc ?i) ((smap (trk st))[?i := c]) = take ?i (smap (trk st)) @ [c]"
    using lt len(1) by (simp add: take_Suc_conv_app_nth)
  have a1: "length (smap (trk ?st')) = max_spt" "length (sflag (trk ?st')) = max_spt"
      "length (cmap (trk ?st')) = max_spt" "length (hmap (trk ?st')) = max_spt"
      "length (used_ids ?st') = 256"
    using len by (simp_all add: f)
  have a2: "hflag (trk ?st') = hflag t0" "cyl (trk ?st') = cyl t0" "head (trk ?st') = head t0"
    using same by (simp_all add: f)
  have a3: "?n0 \<le> Suc ?i" "Suc ?i \<le> max_spt"
    using bounds lt by simp_all
  have a4: "take ?n0 (smap (trk ?st')) = take ?n0 (smap t0)"
    using bounds(1) old by (simp add: f)
  have a5: "distinct (take (Suc ?i) (smap (trk ?st')))"
    using dist cnew by (simp add: f tk)
  have a6: "\<And>d. used_ids ?st' ! unat d \<noteq> 0 \<longleftrightarrow> d \<in> set (take (Suc ?i) (smap (trk ?st')))"
    using len(5) by (simp add: f(1,8) tk mark_step used) 
  have a7: "sflag (trk ?st') ! j = IMD_SDR_UNAVAILABLE
        \<and> (hflag t0 AND IMD_HFLAG_CMAP_PRES \<noteq> 0 \<longrightarrow> cmap (trk ?st') ! j = cyl t0)
        \<and> (hflag t0 AND IMD_HFLAG_HMAP_PRES \<noteq> 0 \<longrightarrow> hmap (trk ?st') ! j = head t0)"
    if j: "?n0 \<le> j" "j < Suc ?i" for j
  proof (cases "j = ?i")
    case True
    with lt len same show ?thesis by (simp add: f)
  next
    case False
    with j have "j < ?i" by simp
    from flags [OF j(1) this] False same show ?thesis by (simp add: f)
  qed
  show "add_inv max_spt t0 ?st'"
    unfolding add_inv_def idx'
    using a1 a2 a3 a4 a5 a6 a7 by blast
qed

lemma add_loop_inv:
  assumes "add_inv max_spt t0 st"
    and "unat (current_physical_idx_for_add st) + k \<le> 255"
  shows "\<exists>st'. add_loop max_spt k st = Some st' \<and> add_inv max_spt t0 st'
           \<and> (unat (current_physical_idx_for_add st) + k \<le> max_spt \<longrightarrow>
                unat (current_physical_idx_for_add st')
                  = unat (current_physical_idx_for_add st) + k)"
  using assms
proof (induction k arbitrary: st)
  case 0
  then show ?case by simp
next
  case (Suc k)
  let ?i = "unat (current_physical_idx_for_add st)"
  show ?case
  proof (cases "?i \<ge> max_spt")
    case True
    with Suc.prems(1) show ?thesis by simp
  next
    case False
    then have lt: "?i < max_spt" by simp
    from Suc.prems(2) have nowrap: "?i < 255" by simp
    from Suc.prems(1) have used:
      "\<And>c. used_ids st ! unat c \<noteq> 0 \<longleftrightarrow> c \<in> set (take ?i (smap (trk st)))"
      unfolding add_inv_def by simp
    have "length (take ?i (smap (trk st))) < 256" using nowrap by simp
    from u8_free_value [OF this] obtain f where "f \<notin> set (take ?i (smap (trk st)))" ..
    with used [of f] have "used_ids st ! unat f = 0" by simp
    from next_free_id_finds [OF this, of "next_smap_id_candidate st"]
    obtain c where c: "next_free_id (used_ids st) (next_smap_id_candidate st) = Some c"
      "used_ids st ! unat c = 0" by blast
    note one = add_one_sector_inv [OF Suc.prems(1) lt nowrap c(2)]
    from Suc.prems(2) one(2)
    have "unat (current_physical_idx_for_add (add_one_sector st c)) + k \<le> 255" by simp
    from Suc.IH [OF one(1) this]
    obtain st' where st': "add_loop max_spt k (add_one_sector st c) = Some st'"
      "add_inv max_spt t0 st'"
      "unat (current_physical_idx_for_add (add_one_sector st c)) + k \<le> max_spt \<longrightarrow>
         unat (current_physical_idx_for_add st')
           = unat (current_physical_idx_for_add (add_one_sector st c)) + k"
      by blast
    from False c(1) st'(1) have "add_loop max_spt (Suc k) st = Some st'" by simp
    with st'(2,3) one(2) show ?thesis by simp
  qed
qed

lemma distinct_take_new:
  assumes "distinct (take n' xs)" "n' \<le> length xs" "n0 \<le> i" "i < n'"
  shows "xs ! i \<notin> set (take n0 xs)"
proof
  assume "xs ! i \<in> set (take n0 xs)"
  then obtain j where j: "j < length (take n0 xs)" "take n0 xs ! j = xs ! i"
    by (auto simp: in_set_conv_nth)
  then have jn: "j < n0" by simp
  with assms have "j < n'" "j \<noteq> i" by simp_all
  from j jn have "xs ! j = xs ! i" by simp
  with \<open>j < n'\<close> assms(4) have eq: "take n' xs ! j = take n' xs ! i" by simp
  have "j < length (take n' xs)" "i < length (take n' xs)"
    using \<open>j < n'\<close> assms(2,4) by simp_all
  with assms(1) eq have "j = i"
    by (simp only: nth_eq_iff_index_eq)
  with \<open>j \<noteq> i\<close> show False by simp
qed

text \<open>What the invariant gives for the track that the block leaves behind.\<close>

lemma add_inv_result:
  assumes inv: "add_inv max_spt t0 st"
    and t': "t' = (trk st)\<lparr>num_sectors := current_physical_idx_for_add st\<rparr>"
  shows "unat (num_sectors t0) \<le> unat (num_sectors t') \<and> unat (num_sectors t') \<le> max_spt
       \<and> take (unat (num_sectors t0)) (smap t') = take (unat (num_sectors t0)) (smap t0)
       \<and> distinct (take (unat (num_sectors t')) (smap t'))
       \<and> (\<forall>i. unat (num_sectors t0) \<le> i \<and> i < unat (num_sectors t') \<longrightarrow>
              smap t' ! i \<notin> set (take (unat (num_sectors t0)) (smap t0))
              \<and> sflag t' ! i = IMD_SDR_UNAVAILABLE
              \<and> (hflag t0 AND IMD_HFLAG_CMAP_PRES \<noteq> 0 \<longrightarrow> cmap t' ! i = cyl t0)
              \<and> (hflag t0 AND IMD_HFLAG_HMAP_PRES \<noteq> 0 \<longrightarrow> hmap t' ! i = head t0))"
proof -
  let ?i = "unat (current_physical_idx_for_add st)"
  let ?n0 = "unat (num_sectors t0)"
  from inv have len: "length (smap (trk st)) = max_spt"
    and bounds: "?n0 \<le> ?i" "?i \<le> max_spt"
    and old: "take ?n0 (smap (trk st)) = take ?n0 (smap t0)"
    and dist: "distinct (take ?i (smap (trk st)))"
    and flags: "\<And>j. ?n0 \<le> j \<Longrightarrow> j < ?i \<Longrightarrow>
        sflag (trk st) ! j = IMD_SDR_UNAVAILABLE
        \<and> (hflag t0 AND IMD_HFLAG_CMAP_PRES \<noteq> 0 \<longrightarrow> cmap (trk st) ! j = cyl t0)
        \<and> (hflag t0 AND IMD_HFLAG_HMAP_PRES \<noteq> 0 \<longrightarrow> hmap (trk st) ! j = head t0)"
    unfolding add_inv_def by simp_all
  have new: "smap (trk st) ! j \<notin> set (take ?n0 (smap t0))" if "?n0 \<le> j" "j < ?i" for j
    using distinct_take_new [OF dist _ that] bounds(2) len old by simp
  show ?thesis
    unfolding t' using bounds old dist flags new by simp
qed

lemma add_loop_from_track:
  assumes len: "length (smap t) = max_spt" "length (sflag t) = max_spt"
      "length (cmap t) = max_spt" "length (hmap t) = max_spt"
    and n: "unat (num_sectors t) \<le> max_spt"
    and d: "distinct (take (unat (num_sectors t)) (smap t))"
    and same: "smap t2 = smap t" "sflag t2 = sflag t" "cmap t2 = cmap t" "hmap t2 = hmap t"
      "hflag t2 = hflag t" "cyl t2 = cyl t" "head t2 = head t" "num_sectors t2 = num_sectors t"
    and k: "unat (num_sectors t) + k \<le> 255"
  shows "\<exists>st'. add_loop max_spt k
                 \<lparr>trk = t2, used_ids = mark_used_ids t2, next_smap_id_candidate = 0,
                  current_physical_idx_for_add = num_sectors t2\<rparr> = Some st'
           \<and> add_inv max_spt t st'
           \<and> (unat (num_sectors t) + k \<le> max_spt \<longrightarrow>
                unat (current_physical_idx_for_add st') = unat (num_sectors t) + k)"
proof -
  let ?st = "\<lparr>trk = t2, used_ids = mark_used_ids t2, next_smap_id_candidate = 0,
              current_physical_idx_for_add = num_sectors t2\<rparr>"
  have le: "unat (num_sectors t2) \<le> length (smap t2)"
    using n len(1) same by simp
  note m = mark_used_ids_spec [OF le]
  have vac: "\<And>i. (unat (num_sectors t) \<le> i \<and> i < unat (num_sectors t)) = False"
    by auto
  have "add_inv max_spt t ?st"
    unfolding add_inv_def using len n d same m by (simp add: vac)
  moreover have "unat (current_physical_idx_for_add ?st) + k \<le> 255"
    using k same by simp
  ultimately show ?thesis
    using add_loop_inv [of max_spt t ?st k] same by simp
qed

text \<open>
  Claim C9. For a loaded track (at most \<open>LIBIMD_MAX_SECTORS_PER_TRACK\<close> sectors, maps of
  that size) whose sector map is free of duplicates, the block that adds missing sectors
  always returns; it leaves the existing entries as they are; every appended slot gets an
  identifier that is not in the map, the unavailable flag, and the cylinder and head of
  the track in the cylinder and head maps when these are present; the new sector count is
  at most \<open>LIBIMD_MAX_SECTORS_PER_TRACK\<close>; and the sector map of the result is again free
  of duplicates. When the option is active, the sector size is positive, the buffer can
  be grown and the sector count is below a target that is at most the maximum, the new
  sector count is the target.
\<close>

theorem add_missing_preserves_distinct_smap:
  assumes len: "length (smap t) = max_spt" "length (sflag t) = max_spt"
      "length (cmap t) = max_spt" "length (hmap t) = max_spt"
    and n: "unat (num_sectors t) \<le> max_spt"
    and d: "distinct (take (unat (num_sectors t)) (smap t))"
  shows "\<exists>t'. add_missing_sectors max_spt opts realloc_ok t = Some t'
     \<and> unat (num_sectors t) \<le> unat (num_sectors t') \<and> unat (num_sectors t') \<le> max_spt
     \<and> take (unat (num_sectors t)) (smap t') = take (unat (num_sectors t)) (smap t)
     \<and> distinct (take (unat (num_sectors t')) (smap t'))
     \<and> (\<forall>i. unat (num_sectors t) \<le> i \<and> i < unat (num_sectors t') \<longrightarrow>
            smap t' ! i \<notin> set (take (unat (num_sectors t)) (smap t))
            \<and> sflag t' ! i = IMD_SDR_UNAVAILABLE
            \<and> (hflag t AND IMD_HFLAG_CMAP_PRES \<noteq> 0 \<longrightarrow> cmap t' ! i = cyl t)
            \<and> (hflag t AND IMD_HFLAG_HMAP_PRES \<noteq> 0 \<longrightarrow> hmap t' ! i = head t))
     \<and> (add_missing_sectors_active opts \<and> 0 < sector_size t \<and> realloc_ok
          \<and> num_sectors t < word_of_int (add_missing_sectors_target opts)
          \<and> unat (word_of_int (add_missing_sectors_target opts) :: u8) \<le> max_spt \<longrightarrow>
          num_sectors t' = word_of_int (add_missing_sectors_target opts))"
proof -
  define target0 :: u8 where "target0 = word_of_int (add_missing_sectors_target opts)"
  define target_total_spt :: u8
    where "target_total_spt = (if unat target0 > max_spt then of_nat max_spt else target0)"
  define num_to_add0 :: u8
    where "num_to_add0 = (if target_total_spt > num_sectors t
                          then target_total_spt - num_sectors t else 0)"
  define new_size where "new_size = unat target_total_spt * unat (sector_size t)"
  define need_realloc
    where "need_realloc \<longleftrightarrow> new_size > data_size t \<or> (data t = None \<and> new_size > 0)"
  define num_to_add :: u8
    where "num_to_add = (if need_realloc \<and> \<not> realloc_ok then 0 else num_to_add0)"
  define t2 where "t2 =
    (if need_realloc \<and> \<not> (need_realloc \<and> \<not> realloc_ok)
     then t\<lparr>data := Some (take new_size (case data t of None \<Rightarrow> [] | Some d \<Rightarrow> d)
              @ replicate (new_size - data_size t)
                  (if fill_specified opts then fill_byte opts else IMDU_FILL_BYTE_DEFAULT))\<rparr>
     else t)\<lparr>data_size := new_size\<rparr>"
  define cond where "cond \<longleftrightarrow>
    add_missing_sectors_active opts \<and> sector_size t > 0 \<and> num_sectors t < target0"
  define st0 where "st0 = \<lparr>trk = t2, used_ids = mark_used_ids t2, next_smap_id_candidate = 0,
                           current_physical_idx_for_add = num_sectors t2\<rparr>"
  let ?P = "\<lambda>t'. unat (num_sectors t) \<le> unat (num_sectors t') \<and> unat (num_sectors t') \<le> max_spt
     \<and> take (unat (num_sectors t)) (smap t') = take (unat (num_sectors t)) (smap t)
     \<and> distinct (take (unat (num_sectors t')) (smap t'))
     \<and> (\<forall>i. unat (num_sectors t) \<le> i \<and> i < unat (num_sectors t') \<longrightarrow>
            smap t' ! i \<notin> set (take (unat (num_sectors t)) (smap t))
            \<and> sflag t' ! i = IMD_SDR_UNAVAILABLE
            \<and> (hflag t AND IMD_HFLAG_CMAP_PRES \<noteq> 0 \<longrightarrow> cmap t' ! i = cyl t)
            \<and> (hflag t AND IMD_HFLAG_HMAP_PRES \<noteq> 0 \<longrightarrow> hmap t' ! i = head t))"
  let ?Q = "\<lambda>t'. cond \<and> realloc_ok \<and> unat target0 \<le> max_spt \<longrightarrow> num_sectors t' = target0"
  have eq: "add_missing_sectors max_spt opts realloc_ok t =
      (if cond then
         (if num_to_add0 > 0 then
            (if num_to_add > 0 \<and> data t2 \<noteq> None then
               (case add_loop max_spt (unat num_to_add) st0 of
                  None \<Rightarrow> None
                | Some st \<Rightarrow> Some ((trk st)\<lparr>num_sectors := current_physical_idx_for_add st\<rparr>))
             else Some t2)
          else Some t)
       else Some t)"
    unfolding add_missing_sectors_def cond_def st0_def t2_def num_to_add_def need_realloc_def
      new_size_def num_to_add0_def target_total_spt_def target0_def Let_def
    by simp
  have same: "smap t2 = smap t" "sflag t2 = sflag t" "cmap t2 = cmap t" "hmap t2 = hmap t"
      "hflag t2 = hflag t" "cyl t2 = cyl t" "head t2 = head t" "num_sectors t2 = num_sectors t"
    by (simp_all add: t2_def)
  have vac: "\<And>i. (unat (num_sectors t) \<le> i \<and> i < unat (num_sectors t)) = False"
    by auto
  have P_t: "?P t" using n d by (simp add: vac)
  have P_t2: "?P t2" using n d by (simp add: same vac)
  have tgt: "target_total_spt = target0" if "unat target0 \<le> max_spt"
    using that by (simp add: target_total_spt_def)
  have nadd0: "num_to_add0 = target0 - num_sectors t" "0 < num_to_add0"
    if "cond" "unat target0 \<le> max_spt"
  proof -
    from that have lt: "num_sectors t < target0" by (simp add: cond_def)
    with tgt [OF that(2)] show "num_to_add0 = target0 - num_sectors t"
      by (simp add: num_to_add0_def)
    from lt have "target0 \<noteq> num_sectors t" by auto
    then show "0 < num_to_add0"
      unfolding \<open>num_to_add0 = target0 - num_sectors t\<close> by (simp add: word_gt_0)
  qed
  show ?thesis
  proof (cases cond)
    case False
    with P_t eq show ?thesis
      unfolding cond_def target0_def by auto
  next
    case c: True
    show ?thesis
    proof (cases "num_to_add0 > 0")
      case False
      with c eq have r: "add_missing_sectors max_spt opts realloc_ok t = Some t" by simp
      have "?Q t" using nadd0(2) False by blast
      with r P_t show ?thesis unfolding cond_def target0_def by auto
    next
      case pos0: True
      then have gt: "target_total_spt > num_sectors t"
        and n0eq: "num_to_add0 = target_total_spt - num_sectors t"
        by (auto simp: num_to_add0_def split: if_splits)
      show ?thesis
      proof (cases "num_to_add > 0 \<and> data t2 \<noteq> None")
        case False
        with c pos0 have r: "add_missing_sectors max_spt opts realloc_ok t = Some t2"
          unfolding eq by (simp only: if_True if_False simp_thms)
        have "?Q t2"
        proof (intro impI, elim conjE)
          assume ok: realloc_ok and "unat target0 \<le> max_spt"
          from ok pos0 have na: "num_to_add > 0" by (simp add: num_to_add_def)
          from gt have "0 < unat target_total_spt"
            by (metis gr_zeroI not_less_zero unat_0_iff word_less_nat_alt)
          moreover from c have "0 < unat (sector_size t)"
            by (simp add: cond_def word_less_nat_alt)
          ultimately have "0 < new_size" by (simp add: new_size_def)
          then have "data t2 \<noteq> None"
            using ok by (auto simp: t2_def need_realloc_def)
          with na False show "num_sectors t2 = target0" by simp
        qed
        with r P_t2 show ?thesis unfolding cond_def target0_def by auto
      next
        case run: True
        then have "num_to_add = num_to_add0"
          by (auto simp: num_to_add_def split: if_splits)
        with n0eq gt have k: "unat num_to_add = unat target_total_spt - unat (num_sectors t)"
          by (simp add: unat_sub word_less_nat_alt word_le_nat_alt)
        from gt have le: "unat (num_sectors t) \<le> unat target_total_spt"
          by (simp add: word_less_nat_alt)
        have "unat target_total_spt \<le> 255"
          using unsigned_less [of target_total_spt, where ?'a = nat] by simp
        with k le have k255: "unat (num_sectors t) + unat num_to_add \<le> 255" by simp
        from add_loop_from_track [OF len n d same k255]
        obtain st' where st': "add_loop max_spt (unat num_to_add) st0 = Some st'"
          "add_inv max_spt t st'"
          "unat (num_sectors t) + unat num_to_add \<le> max_spt \<longrightarrow>
             unat (current_physical_idx_for_add st') = unat (num_sectors t) + unat num_to_add"
          unfolding st0_def by blast
        define t' where "t' = (trk st')\<lparr>num_sectors := current_physical_idx_for_add st'\<rparr>"
        from c pos0 run
        have r: "add_missing_sectors max_spt opts realloc_ok t = Some t'"
          unfolding eq st'(1) t'_def by (simp only: if_True option.case simp_thms)
        have P: "?P t'" by (rule add_inv_result [OF st'(2) t'_def])
        have "?Q t'"
        proof (intro impI, elim conjE)
          assume m: "unat target0 \<le> max_spt"
          from tgt [OF m] k le have "unat (num_sectors t) + unat num_to_add = unat target0"
            by simp
          with st'(3) m have "unat (current_physical_idx_for_add st') = unat target0" by simp
          then show "num_sectors t' = target0"
            by (simp add: t'_def word_unat_eq_iff)
        qed
        with r P show ?thesis unfolding cond_def target0_def by auto
      qed
    qed
  qed
qed

theorem add_missing_preserves_distinct_smap_witness:
  "length (smap example_track) = 256 \<and> length (sflag example_track) = 256
   \<and> length (cmap example_track) = 256 \<and> length (hmap example_track) = 256
   \<and> unat (num_sectors example_track) \<le> 256
   \<and> distinct (take (unat (num_sectors example_track)) (smap example_track))
   \<and> num_sectors example_track < word_of_int (add_missing_sectors_target example_imdu_opts)
   \<and> (\<exists>t'. add_missing_sectors 256 example_imdu_opts True example_track = Some t'
          \<and> num_sectors t' = 6
          \<and> distinct (take (unat (num_sectors t')) (smap t'))
          \<and> sflag t' ! 3 = IMD_SDR_UNAVAILABLE)"
proof -
  have h1: "length (smap example_track) = 256" by (simp add: example_track_def)
  have h2: "length (sflag example_track) = 256" by (simp add: example_track_def)
  have h3: "length (cmap example_track) = 256" by (simp add: example_track_def)
  have h4: "length (hmap example_track) = 256" by (simp add: example_track_def)
  have h5: "unat (num_sectors example_track) \<le> 256" by (simp add: example_track_def)
  have h6: "distinct (take (unat (num_sectors example_track)) (smap example_track))"
    by (simp add: example_track_def)
  have n3: "unat (num_sectors example_track) = 3" by (simp add: example_track_def)
  have g: "add_missing_sectors_active example_imdu_opts" "0 < sector_size example_track"
    "num_sectors example_track < word_of_int (add_missing_sectors_target example_imdu_opts)"
    "unat (word_of_int (add_missing_sectors_target example_imdu_opts) :: u8) \<le> 256"
    "(word_of_int (add_missing_sectors_target example_imdu_opts) :: u8) = 6"
    by (simp_all add: example_imdu_opts_def example_track_def word_less_nat_alt)
  from add_missing_preserves_distinct_smap [OF h1 h2 h3 h4 h5 h6, of example_imdu_opts True]
  obtain t' where t': "add_missing_sectors 256 example_imdu_opts True example_track = Some t'"
    "distinct (take (unat (num_sectors t')) (smap t'))"
    "\<And>i. unat (num_sectors example_track) \<le> i \<Longrightarrow> i < unat (num_sectors t') \<Longrightarrow>
        sflag t' ! i = IMD_SDR_UNAVAILABLE"
    "num_sectors t' = 6"
    using g by auto
  from t'(3) [of 3] t'(4) n3 have "sflag t' ! 3 = IMD_SDR_UNAVAILABLE" by simp
  with h1 h2 h3 h4 h5 h6 g(3) t'(1,2,4) show ?thesis by blast
qed

subsection \<open>imdu: the block that adds missing sectors always returns\<close>

lemma filter_update_le:
  "length (filter P (xs[i := v])) \<le> Suc (length (filter P xs))"
proof (induction xs arbitrary: i)
  case Nil
  then show ?case by simp
next
  case (Cons x xs)
  show ?case
  proof (cases i)
    case 0
    then show ?thesis by simp
  next
    case (Suc j)
    with Cons.IH [of j] show ?thesis by simp
  qed
qed

lemma mark_fold_count:
  fixes xs u :: "u8 list"
  shows "length (fold (\<lambda>k used. used[unat (xs ! k) := 1]) [0 ..< n] u) = length u
       \<and> length (filter (\<lambda>x. x \<noteq> 0) (fold (\<lambda>k used. used[unat (xs ! k) := 1]) [0 ..< n] u))
           \<le> length (filter (\<lambda>x. x \<noteq> 0) u) + n"
proof (induction n)
  case 0
  show ?case by simp
next
  case (Suc n)
  let ?F = "fold (\<lambda>k used. used[unat (xs ! k) := 1]) [0 ..< n] u"
  have step: "fold (\<lambda>k used. used[unat (xs ! k) := 1]) [0 ..< Suc n] u = ?F[unat (xs ! n) := 1]"
    by simp
  from filter_update_le [of "\<lambda>x. x \<noteq> 0" ?F "unat (xs ! n)" 1] Suc
  show ?case unfolding step by simp
qed

lemma mark_used_ids_count:
  "length (mark_used_ids t) = 256"
  "length (filter (\<lambda>x. x \<noteq> 0) (mark_used_ids t)) \<le> unat (num_sectors t)"
  using mark_fold_count [of "smap t" "unat (num_sectors t)" "replicate 256 0"]
  by (simp_all add: mark_used_ids_def)

lemma unused_id_exists:
  fixes used :: "u8 list"
  assumes "length used = 256" "length (filter (\<lambda>x. x \<noteq> 0) used) < 256"
  shows "\<exists>f :: u8. used ! unat f = 0"
proof -
  have "\<exists>x \<in> set used. x = 0"
  proof (rule ccontr)
    assume "\<not> (\<exists>x \<in> set used. x = 0)"
    then have "\<forall>x \<in> set used. x \<noteq> 0" by blast
    then have "filter (\<lambda>x. x \<noteq> 0) used = used" by (simp only: filter_id_conv)
    with assms show False by simp
  qed
  then obtain i where i: "i < length used" "used ! i = 0"
    by (auto simp: in_set_conv_nth)
  with assms(1) have "unat (of_nat i :: u8) = i" by (simp add: unat_of_nat)
  with i(2) show ?thesis by metis
qed

lemma add_loop_returns:
  assumes "length (used_ids st) = 256"
    and "length (filter (\<lambda>x. x \<noteq> 0) (used_ids st)) + k \<le> 255"
  shows "\<exists>st'. add_loop max_spt k st = Some st'"
  using assms
proof (induction k arbitrary: st)
  case 0
  then show ?case by simp
next
  case (Suc k)
  show ?case
  proof (cases "unat (current_physical_idx_for_add st) \<ge> max_spt")
    case True
    then show ?thesis by simp
  next
    case False
    from Suc.prems have "length (filter (\<lambda>x. x \<noteq> 0) (used_ids st)) < 256" by simp
    from unused_id_exists [OF Suc.prems(1) this] obtain f :: u8 where "used_ids st ! unat f = 0" ..
    from next_free_id_finds [OF this, of "next_smap_id_candidate st"]
    obtain c where c: "next_free_id (used_ids st) (next_smap_id_candidate st) = Some c" by blast
    have l: "length (used_ids (add_one_sector st c)) = 256"
      using Suc.prems(1) by (simp add: add_one_sector_fields)
    have "length (filter (\<lambda>x. x \<noteq> 0) (used_ids (add_one_sector st c)))
            \<le> Suc (length (filter (\<lambda>x. x \<noteq> 0) (used_ids st)))"
      by (simp add: add_one_sector_fields filter_update_le)
    with Suc.prems(2)
    have "length (filter (\<lambda>x. x \<noteq> 0) (used_ids (add_one_sector st c))) + k \<le> 255" by simp
    from Suc.IH [OF l this] obtain st' where "add_loop max_spt k (add_one_sector st c) = Some st'" ..
    with False c show ?thesis by simp
  qed
qed

lemma add_loop_from_any_track:
  assumes "num_sectors t2 < tt"
  shows "\<exists>st'. add_loop max_spt (unat (tt - num_sectors t2))
                 \<lparr>trk = t2, used_ids = mark_used_ids t2, next_smap_id_candidate = 0,
                  current_physical_idx_for_add = num_sectors t2\<rparr> = Some st'"
proof -
  from assms have "unat (tt - num_sectors t2) = unat tt - unat (num_sectors t2)"
    and "unat (num_sectors t2) \<le> unat tt"
    by (simp_all add: unat_sub word_less_nat_alt word_le_nat_alt)
  moreover have "unat tt \<le> 255" using unat_u8_lt_256 [of tt] by simp
  ultimately have "length (filter (\<lambda>x. x \<noteq> 0) (mark_used_ids t2)) + unat (tt - num_sectors t2) \<le> 255"
    using mark_used_ids_count(2) [of t2] by simp
  then show ?thesis
    by (intro add_loop_returns) (simp_all add: mark_used_ids_count)
qed

text \<open>The block that adds missing sectors returns for every track.\<close>

lemma add_missing_sectors_returns:
  "\<exists>t'. add_missing_sectors max_spt opts realloc_ok t = Some t'"
proof -
  define target0 :: u8 where "target0 = word_of_int (add_missing_sectors_target opts)"
  define target_total_spt :: u8
    where "target_total_spt = (if unat target0 > max_spt then of_nat max_spt else target0)"
  define num_to_add0 :: u8
    where "num_to_add0 = (if target_total_spt > num_sectors t
                          then target_total_spt - num_sectors t else 0)"
  define new_size where "new_size = unat target_total_spt * unat (sector_size t)"
  define need_realloc
    where "need_realloc \<longleftrightarrow> new_size > data_size t \<or> (data t = None \<and> new_size > 0)"
  define num_to_add :: u8
    where "num_to_add = (if need_realloc \<and> \<not> realloc_ok then 0 else num_to_add0)"
  define t2 where "t2 =
    (if need_realloc \<and> \<not> (need_realloc \<and> \<not> realloc_ok)
     then t\<lparr>data := Some (take new_size (case data t of None \<Rightarrow> [] | Some d \<Rightarrow> d)
              @ replicate (new_size - data_size t)
                  (if fill_specified opts then fill_byte opts else IMDU_FILL_BYTE_DEFAULT))\<rparr>
     else t)\<lparr>data_size := new_size\<rparr>"
  define cond where "cond \<longleftrightarrow>
    add_missing_sectors_active opts \<and> sector_size t > 0 \<and> num_sectors t < target0"
  define st0 where "st0 = \<lparr>trk = t2, used_ids = mark_used_ids t2, next_smap_id_candidate = 0,
                           current_physical_idx_for_add = num_sectors t2\<rparr>"
  have eq: "add_missing_sectors max_spt opts realloc_ok t =
      (if cond then
         (if num_to_add0 > 0 then
            (if num_to_add > 0 \<and> data t2 \<noteq> None then
               (case add_loop max_spt (unat num_to_add) st0 of
                  None \<Rightarrow> None
                | Some st \<Rightarrow> Some ((trk st)\<lparr>num_sectors := current_physical_idx_for_add st\<rparr>))
             else Some t2)
          else Some t)
       else Some t)"
    unfolding add_missing_sectors_def cond_def st0_def t2_def num_to_add_def need_realloc_def
      new_size_def num_to_add0_def target_total_spt_def target0_def Let_def
    by simp
  have n2: "num_sectors t2 = num_sectors t" by (simp add: t2_def)
  show ?thesis
  proof (cases "cond \<and> num_to_add0 > 0 \<and> num_to_add > 0 \<and> data t2 \<noteq> None")
    case False
    then show ?thesis unfolding eq by (simp only: if_True if_False simp_thms split: if_splits) auto
  next
    case True
    then have "num_to_add = num_to_add0" "target_total_spt > num_sectors t"
      "num_to_add0 = target_total_spt - num_sectors t"
      by (auto simp: num_to_add_def num_to_add0_def split: if_splits)
    then have k: "num_to_add = target_total_spt - num_sectors t2" "num_sectors t2 < target_total_spt"
      by (simp_all add: n2)
    from add_loop_from_any_track [OF k(2), of max_spt]
    obtain st' where "add_loop max_spt (unat num_to_add) st0 = Some st'"
      unfolding st0_def k(1) by blast
    with True show ?thesis unfolding eq by simp
  qed
qed

subsection \<open>imdu: merging two files\<close>

text \<open>The two loads: either the next record is malformed and the load fails, or the
  tracks still to be delivered stay the same.\<close>

lemma load_primary_step:
  assumes "merge_wf s"
  shows "(load_primary s = None \<and> \<not> streams_clean s)
       \<or> (\<exists>s1. load_primary s = Some s1 \<and> merge_wf s1
             \<and> pending_primary s1 = pending_primary s \<and> pending_merge s1 = pending_merge s
             \<and> written s1 = written s
             \<and> (loaded (primary_track s1) \<longleftrightarrow> pending_primary s \<noteq> [])
             \<and> (loaded (primary_track s1) \<or> primary_eof s1)
             \<and> (streams_clean s1 \<longleftrightarrow> streams_clean s))"
proof (cases "\<not> primary_eof s \<and> \<not> loaded (primary_track s)")
  case False
  with assms show ?thesis
    by (auto simp: load_primary_def merge_wf_def pending_primary_def)
next
  case True
  show ?thesis
  proof (cases "fimd s" rule: imd_load_track.cases)
    case 1
    with True assms show ?thesis
      by (auto simp: load_primary_def merge_wf_def pending_primary_def pending_merge_def
          streams_clean_def split: option.splits)
  next
    case (2 t rest)
    with True assms show ?thesis
      by (auto simp: load_primary_def merge_wf_def pending_primary_def pending_merge_def
          streams_clean_def split: option.splits)
  next
    case (3 rest)
    with True show ?thesis by (simp add: load_primary_def streams_clean_def)
  qed
qed

lemma load_merge_step:
  assumes "merge_wf s"
  shows "(load_merge s = None \<and> \<not> streams_clean s)
       \<or> (\<exists>s1. load_merge s = Some s1 \<and> merge_wf s1
             \<and> pending_primary s1 = pending_primary s \<and> pending_merge s1 = pending_merge s
             \<and> written s1 = written s
             \<and> (loaded (merge_track s1) \<longleftrightarrow> pending_merge s \<noteq> [])
             \<and> (loaded (merge_track s1) \<or> merge_eof s1 \<or> fmerge s1 = None)
             \<and> primary_track s1 = primary_track s \<and> primary_eof s1 = primary_eof s
             \<and> fimd s1 = fimd s
             \<and> (streams_clean s1 \<longleftrightarrow> streams_clean s))"
proof (cases "fmerge s")
  case None
  with assms show ?thesis
    by (auto simp: load_merge_def merge_wf_def pending_merge_def)
next
  case (Some f)
  show ?thesis
  proof (cases "\<not> merge_eof s \<and> \<not> loaded (merge_track s)")
    case False
    with Some assms show ?thesis
      by (auto simp: load_merge_def merge_wf_def pending_merge_def)
  next
    case True
    show ?thesis
    proof (cases f rule: imd_load_track.cases)
      case 1
      with True Some assms show ?thesis
        by (auto simp: load_merge_def merge_wf_def pending_primary_def pending_merge_def
            streams_clean_def)
    next
      case (2 t rest)
      with True Some assms show ?thesis
        by (auto simp: load_merge_def merge_wf_def pending_primary_def pending_merge_def
            streams_clean_def)
    next
      case (3 rest)
      with True Some show ?thesis by (simp add: load_merge_def streams_clean_def)
    qed
  qed
qed

lemma merge_tracks_Nil2 [simp]: "merge_tracks ps [] = ps"
  by (cases ps) simp_all

lemma select_process_step:
  assumes wf: "merge_wf s"
    and lp: "loaded (primary_track s) \<longleftrightarrow> pending_primary s \<noteq> []"
    and lm: "loaded (merge_track s) \<longleftrightarrow> pending_merge s \<noteq> []"
    and ne: "pending_primary s \<noteq> [] \<or> pending_merge s \<noteq> []"
  shows "\<exists>choice s3 s4 t.
           select_track s = Some (choice, s3)
         \<and> process_track lc opts ok choice s3 = Some s4
         \<and> merge_wf s4
         \<and> fimd s4 = fimd s \<and> fmerge s4 = fmerge s
         \<and> merge_tracks (pending_primary s) (pending_merge s)
             = t # merge_tracks (pending_primary s4) (pending_merge s4)
         \<and> written s4 = written s @
             (if track_excluded lc opts t then []
              else [the (add_missing_sectors (LIBIMD_MAX_SECTORS_PER_TRACK lc) opts ok t)])"
proof -
  let ?p = "primary_track s" and ?m = "merge_track s"
  let ?add = "add_missing_sectors (LIBIMD_MAX_SECTORS_PER_TRACK lc) opts ok"
  have zl: "\<And>n. \<not> loaded (zero_track n)" by (simp add: zero_track_def)
  have ret: "?add t \<noteq> None" for t
    using add_missing_sectors_returns [of "LIBIMD_MAX_SECTORS_PER_TRACK lc" opts ok t] by auto
  define donep :: "merge_state \<Rightarrow> merge_state" where "donep s' =
    (s'\<lparr>primary_track := zero_track (length (smap (primary_track s')))\<rparr>)
     \<lparr>written := written s' @ (if track_excluded lc opts (primary_track s') then []
                               else [the (?add (primary_track s'))])\<rparr>" for s'
  define donem :: "merge_state \<Rightarrow> merge_state" where "donem s' =
    (s'\<lparr>merge_track := zero_track (length (smap (merge_track s')))\<rparr>)
     \<lparr>written := written s' @ (if track_excluded lc opts (merge_track s') then []
                               else [the (?add (merge_track s'))])\<rparr>" for s'
  have procp: "process_track lc opts ok Use_primary s' = Some (donep s')"
    if "\<not> track_excluded lc opts (primary_track s') \<longrightarrow> ?add (primary_track s') \<noteq> None"
    for s'
    using that by (auto simp: process_track_def donep_def Let_def)
  have procm: "process_track lc opts ok Use_merge s' = Some (donem s')"
    if "\<not> track_excluded lc opts (merge_track s') \<longrightarrow> ?add (merge_track s') \<noteq> None"
    for s'
    using that by (auto simp: process_track_def donem_def Let_def)
  show ?thesis
  proof (cases "loaded ?p")
    case p: True
    then have P: "pending_primary s = ?p # stream_tracks (fimd s)"
      by (simp add: pending_primary_def)
    have rp: "\<not> track_excluded lc opts ?p \<longrightarrow> ?add ?p \<noteq> None" by (simp add: ret)
    from wf p have wfp: "merge_wf (donep s)"
      by (auto simp: merge_wf_def donep_def zl split: option.splits)
    have pp: "pending_primary (donep s) = stream_tracks (fimd s)"
      "pending_merge (donep s) = pending_merge s"
      "written (donep s) = written s @ (if track_excluded lc opts ?p then [] else [the (?add ?p)])"
      "fimd (donep s) = fimd s" "fmerge (donep s) = fmerge s"
      by (simp_all add: pending_primary_def pending_merge_def donep_def zl)
    show ?thesis
    proof (cases "loaded ?m")
      case m: False
      with lm have M: "pending_merge s = []" by simp
      from p m have sel: "select_track s = Some (Use_primary, s)"
        by (simp add: select_track_def)
      show ?thesis
        using sel procp [OF rp] wfp pp P M by auto
    next
      case m: True
      then have M: "pending_merge s
          = ?m # (case fmerge s of None \<Rightarrow> [] | Some f \<Rightarrow> stream_tracks f)"
        by (simp add: pending_merge_def)
      have rm: "\<not> track_excluded lc opts ?m \<longrightarrow> ?add ?m \<noteq> None" by (simp add: ret)
      from wf m have wfm: "merge_wf (donem s)"
        by (auto simp: merge_wf_def donem_def zl split: option.splits)
      have mm: "pending_primary (donem s) = pending_primary s"
        "pending_merge (donem s) = (case fmerge s of None \<Rightarrow> [] | Some f \<Rightarrow> stream_tracks f)"
        "written (donem s) = written s @ (if track_excluded lc opts ?m then [] else [the (?add ?m)])"
      "fimd (donem s) = fimd s" "fmerge (donem s) = fmerge s"
        "fimd (donem s) = fimd s" "fmerge (donem s) = fmerge s"
        by (simp_all add: pending_primary_def pending_merge_def donem_def zl)
      consider (pm) "track_before ?p ?m"
        | (mp) "\<not> track_before ?p ?m" "track_before ?m ?p"
        | (tie) "\<not> track_before ?p ?m" "\<not> track_before ?m ?p"
        by blast
      then show ?thesis
      proof cases
        case pm
        with p m have sel: "select_track s = Some (Use_primary, s)"
          by (simp add: select_track_def)
        show ?thesis
          using sel procp [OF rp] wfp pp P M pm by auto
      next
        case mp
        with p m have sel: "select_track s = Some (Use_merge, s)"
          by (simp add: select_track_def)
        show ?thesis
          using sel procm [OF rm] wfm mm P M mp by auto
      next
        case tie
        let ?s3 = "s\<lparr>merge_track := zero_track (length (smap ?m))\<rparr>"
        from tie p m have sel: "select_track s = Some (Use_primary, ?s3)"
          by (simp add: select_track_def)
        have rp3: "\<not> track_excluded lc opts (primary_track ?s3) \<longrightarrow>
            ?add (primary_track ?s3) \<noteq> None"
          using rp by simp
        from wf p have wf3: "merge_wf (donep ?s3)"
          by (auto simp: merge_wf_def donep_def zl split: option.splits)
        have p3: "pending_primary (donep ?s3) = stream_tracks (fimd s)"
          "pending_merge (donep ?s3)
             = (case fmerge s of None \<Rightarrow> [] | Some f \<Rightarrow> stream_tracks f)"
          "written (donep ?s3)
             = written s @ (if track_excluded lc opts ?p then [] else [the (?add ?p)])"
          "fimd (donep ?s3) = fimd s" "fmerge (donep ?s3) = fmerge s"
          by (simp_all add: pending_primary_def pending_merge_def donep_def zl)
        show ?thesis
          using sel procp [OF rp3] wf3 p3 P M tie by auto
      qed
    qed
  next
    case p: False
    with lp have P: "pending_primary s = []" by simp
    with ne lm have m: "loaded ?m" by simp
    then have M: "pending_merge s
        = ?m # (case fmerge s of None \<Rightarrow> [] | Some f \<Rightarrow> stream_tracks f)"
      by (simp add: pending_merge_def)
    have rm: "\<not> track_excluded lc opts ?m \<longrightarrow> ?add ?m \<noteq> None" by (simp add: ret)
    from wf m have wfm: "merge_wf (donem s)"
      by (auto simp: merge_wf_def donem_def zl split: option.splits)
    have mm: "pending_primary (donem s) = pending_primary s"
      "pending_merge (donem s) = (case fmerge s of None \<Rightarrow> [] | Some f \<Rightarrow> stream_tracks f)"
      "written (donem s) = written s @ (if track_excluded lc opts ?m then [] else [the (?add ?m)])"
      "fimd (donem s) = fimd s" "fmerge (donem s) = fmerge s"
      by (simp_all add: pending_primary_def pending_merge_def donem_def zl)
    from p m have sel: "select_track s = Some (Use_merge, s)"
      by (simp add: select_track_def)
    show ?thesis
      using sel procm [OF rm] wfm mm P M by auto
  qed
qed

text \<open>The loop against the merge of the tracks still to be delivered: without a malformed
  record it finishes with the whole merge written; with one it stops at the failing
  load, and what it has written by then is a prefix of the merge.\<close>

lemma merge_loop_refines:
  assumes "merge_wf s"
  shows "\<exists>k. merge_loop lc opts ok s =
           (if streams_clean s then
              Finished (written s @
                map (\<lambda>t. the (add_missing_sectors (LIBIMD_MAX_SECTORS_PER_TRACK lc) opts ok t))
                  (filter (\<lambda>t. \<not> track_excluded lc opts t)
                     (merge_tracks (pending_primary s) (pending_merge s))))
            else
              Load_failed (written s @
                map (\<lambda>t. the (add_missing_sectors (LIBIMD_MAX_SECTORS_PER_TRACK lc) opts ok t))
                  (filter (\<lambda>t. \<not> track_excluded lc opts t)
                     (take k (merge_tracks (pending_primary s) (pending_merge s))))))"
  using assms
proof (induction lc opts ok s rule: merge_loop.induct)
  case (1 lc opts ok s)
  let ?add = "add_missing_sectors (LIBIMD_MAX_SECTORS_PER_TRACK lc) opts ok"
  let ?F = "\<lambda>ts. map (\<lambda>t. the (?add t)) (filter (\<lambda>t. \<not> track_excluded lc opts t) ts)"
  let ?R = "\<lambda>s k. if streams_clean s then
              Finished (written s @ ?F (merge_tracks (pending_primary s) (pending_merge s)))
            else
              Load_failed (written s
                 @ ?F (take k (merge_tracks (pending_primary s) (pending_merge s))))"
  note wf = "1.prems"(1)
  show ?case
  proof (cases "\<not> primary_eof s \<or> \<not> merge_eof s")
    case False
    with wf have "pending_primary s = []" "pending_merge s = []" "streams_clean s"
      by (auto simp: merge_wf_def pending_primary_def pending_merge_def streams_clean_def
          split: option.splits)
    with False show ?thesis by (subst merge_loop.simps) simp
  next
    case go: True
    from load_primary_step [OF wf]
    consider (fail) "load_primary s = None" "\<not> streams_clean s"
      | (next_track) s1 where "load_primary s = Some s1" "merge_wf s1"
        "pending_primary s1 = pending_primary s" "pending_merge s1 = pending_merge s"
        "written s1 = written s" "loaded (primary_track s1) \<longleftrightarrow> pending_primary s \<noteq> []"
        "loaded (primary_track s1) \<or> primary_eof s1"
        "streams_clean s1 \<longleftrightarrow> streams_clean s"
      by metis
    then show ?thesis
    proof cases
      case fail
      with go have "merge_loop lc opts ok s = ?R s 0"
        by (subst merge_loop.simps) simp
      then show ?thesis by (rule exI)
    next
      case (next_track s1)
      note s1 = next_track
      from load_merge_step [OF s1(2)]
      consider (fail) "load_merge s1 = None" "\<not> streams_clean s1"
        | (next_merge) s2 where "load_merge s1 = Some s2" "merge_wf s2"
          "pending_primary s2 = pending_primary s1" "pending_merge s2 = pending_merge s1"
          "written s2 = written s1" "loaded (merge_track s2) \<longleftrightarrow> pending_merge s1 \<noteq> []"
          "loaded (merge_track s2) \<or> merge_eof s2 \<or> fmerge s2 = None"
          "primary_track s2 = primary_track s1" "primary_eof s2 = primary_eof s1"
          "fimd s2 = fimd s1"
          "streams_clean s2 \<longleftrightarrow> streams_clean s1"
        by metis
      then show ?thesis
      proof cases
        case fail
        with go s1(1,5,8) have "merge_loop lc opts ok s = ?R s 0"
          by (subst merge_loop.simps) simp
        then show ?thesis by (rule exI)
      next
        case (next_merge s2)
        note s2 = next_merge
        have lp: "loaded (primary_track s2) \<longleftrightarrow> pending_primary s2 \<noteq> []"
          using s1 s2 by simp
        have lm: "loaded (merge_track s2) \<longleftrightarrow> pending_merge s2 \<noteq> []"
          using s1 s2 by simp
        have P: "pending_primary s2 = pending_primary s"
          and M: "pending_merge s2 = pending_merge s"
          and W: "written s2 = written s"
          and C: "streams_clean s2 \<longleftrightarrow> streams_clean s"
          using s1 s2 by simp_all
        show ?thesis
        proof (cases "pending_primary s2 = [] \<and> pending_merge s2 = []")
          case True
          with lp lm have sel: "select_track s2 = None" by (simp add: select_track_def)
          from True lp s1(7) s2(8,9) have "primary_eof s2" by simp
          with s2(2) have f1: "fimd s2 = []" by (simp add: merge_wf_def)
          from True lm s2(7) have "merge_eof s2 \<or> fmerge s2 = None" by simp
          with s2(2) have f2: "fmerge s2 = None \<or> fmerge s2 = Some []"
            by (auto simp: merge_wf_def split: option.splits)
          from f1 f2 have "streams_clean s2" by (auto simp: streams_clean_def)
          with C have "streams_clean s" by simp
          with go s1(1) s2(1) sel True P M W have "merge_loop lc opts ok s = ?R s 0"
            by (subst merge_loop.simps) simp
          then show ?thesis by (rule exI)
        next
          case False
          then have ne: "pending_primary s2 \<noteq> [] \<or> pending_merge s2 \<noteq> []" by simp
          from select_process_step [OF s2(2) lp lm ne, of lc opts ok]
          obtain choice s3 s4 t where st: "select_track s2 = Some (choice, s3)"
            "process_track lc opts ok choice s3 = Some s4" "merge_wf s4"
            "merge_tracks (pending_primary s2) (pending_merge s2)
               = t # merge_tracks (pending_primary s4) (pending_merge s4)"
            "fimd s4 = fimd s2" "fmerge s4 = fmerge s2"
            "written s4 = written s2 @ (if track_excluded lc opts t then [] else [the (?add t)])"
            by blast
          from st(5,6) C have C4: "streams_clean s4 \<longleftrightarrow> streams_clean s"
            by (simp add: streams_clean_def)
          from "1.IH" [OF go s1(1) s2(1) st(1) refl st(2) st(3)]
          obtain k where IH: "merge_loop lc opts ok s4 = ?R s4 k" by blast
          have "merge_loop lc opts ok s = merge_loop lc opts ok s4"
            using go s1(1) s2(1) st(1,2) by (subst merge_loop.simps) simp
          also note IH
          finally have "merge_loop lc opts ok s = ?R s (Suc k)"
            using st(4,7) P M W C4 by simp
          then show ?thesis by (rule exI)
        qed
      qed
    qed
  qed
qed

lemma track_before_iff: "track_before a b \<longleftrightarrow> track_pos a < track_pos b"
proof -
  have "unat (head a) < 256" "unat (head b) < 256"
    using unat_u8_lt_256 by simp_all
  then show ?thesis
    unfolding track_before_def track_pos_def word_less_nat_alt word_unat_eq_iff
    by auto
qed

lemma merge_tracks_subset: "set (merge_tracks ps ms) \<subseteq> set ps \<union> set ms"
  by (induction ps ms rule: merge_tracks.induct) auto

lemma merge_tracks_sorted:
  "sorted (map track_pos ps) \<Longrightarrow> sorted (map track_pos ms) \<Longrightarrow>
     sorted (map track_pos (merge_tracks ps ms))"
proof (induction ps ms rule: merge_tracks.induct)
  case (3 p ps m ms)
  have sub1: "set (merge_tracks ps (m # ms)) \<subseteq> set ps \<union> set (m # ms)"
    and sub2: "set (merge_tracks (p # ps) ms) \<subseteq> set (p # ps) \<union> set ms"
    and sub3: "set (merge_tracks ps ms) \<subseteq> set ps \<union> set ms"
    by (rule merge_tracks_subset)+
  from "3.prems" have sp: "\<forall>x \<in> set ps. track_pos p \<le> track_pos x" "sorted (map track_pos ps)"
    and sm: "\<forall>x \<in> set ms. track_pos m \<le> track_pos x" "sorted (map track_pos ms)"
    by simp_all
  show ?case
  proof (cases "track_before p m")
    case True
    then have "track_pos p < track_pos m" by (simp add: track_before_iff)
    with sp sm sub1 have "\<forall>x \<in> set (merge_tracks ps (m # ms)). track_pos p \<le> track_pos x"
      by fastforce
    with True "3.IH"(1) [OF True sp(2) "3.prems"(2)] show ?thesis by simp
  next
    case False
    show ?thesis
    proof (cases "track_before m p")
      case True
      then have "track_pos m < track_pos p" by (simp add: track_before_iff)
      with sp sm sub2 have "\<forall>x \<in> set (merge_tracks (p # ps) ms). track_pos m \<le> track_pos x"
        by fastforce
      with False True "3.IH"(2) [OF False True "3.prems"(1) sm(2)] show ?thesis by simp
    next
      case nb: False
      with False have "track_pos p = track_pos m" by (simp add: track_before_iff)
      with sp sm sub3 have "\<forall>x \<in> set (merge_tracks ps ms). track_pos p \<le> track_pos x"
        by fastforce
      with False nb "3.IH"(3) [OF False nb sp(2) sm(2)] show ?thesis by simp
    qed
  qed
qed simp_all

lemma add_loop_keeps_position:
  "add_loop max_spt k st = Some st' \<Longrightarrow>
     cyl (trk st') = cyl (trk st) \<and> head (trk st') = head (trk st)"
proof (induction k arbitrary: st)
  case 0
  then show ?case by simp
next
  case (Suc k)
  show ?case
  proof (cases "unat (current_physical_idx_for_add st) \<ge> max_spt")
    case True
    with Suc.prems show ?thesis by simp
  next
    case False
    with Suc.prems obtain c where c: "next_free_id (used_ids st) (next_smap_id_candidate st) = Some c"
      "add_loop max_spt k (add_one_sector st c) = Some st'"
      by (auto split: option.splits)
    from Suc.IH [OF c(2)] show ?thesis by (simp add: add_one_sector_fields)
  qed
qed

lemma add_missing_keeps_position:
  assumes "add_missing_sectors max_spt opts ok t = Some t'"
  shows "track_pos t' = track_pos t"
proof -
  have "cyl t' = cyl t \<and> head t' = head t"
    using assms
    by (auto simp: add_missing_sectors_def Let_def split: if_splits option.splits
        dest!: add_loop_keeps_position)
  then show ?thesis by (simp add: track_pos_def)
qed

lemma stream_tracks_map_Track:
  "stream_tracks (map Track ts) = map (\<lambda>t. t\<lparr>loaded := True\<rparr>) ts"
  by (induction ts) simp_all

lemma sorted_wrt_track_before:
  "tracks_ascending ts \<longleftrightarrow> sorted (map track_pos ts)"
  by (simp add: tracks_ascending_def sorted_map track_before_iff not_less)

lemma add_missing_position:
  "track_pos (the (add_missing_sectors max_spt opts ok t)) = track_pos t"
proof -
  from add_missing_sectors_returns [of max_spt opts ok t]
  obtain t' where "add_missing_sectors max_spt opts ok t = Some t'" by blast
  then show ?thesis by (simp add: add_missing_keeps_position)
qed

lemma written_prefix_ascending:
  assumes "sorted (map track_pos ts)"
  shows "sorted (map track_pos
           (map (\<lambda>t. the (add_missing_sectors max_spt opts ok t))
              (filter keep (take k ts))))"
proof -
  from assms have "sorted (take k (map track_pos ts))" by (rule sorted_wrt_take)
  then have "sorted (map track_pos (take k ts))" by (simp add: take_map)
  then have "sorted (map track_pos (filter keep (take k ts)))" by (rule sorted_filter)
  then show ?thesis by (simp add: o_def add_missing_position)
qed

text \<open>A run that meets a malformed record: the primary file holds a track at cylinder 0,
  head 0, and then a malformed record; the merge file holds a track at cylinder 1. The
  first track is written before the load fails.\<close>

lemma merge_malformed_record_example:
  "(case imdu_track_loop example_consts example_imdu_opts True
           [Track (example_track_at 0 0), Malformed] (Some [Track (example_track_at 1 0)]) of
      Load_failed ts \<Rightarrow> map track_pos ts
    | _ \<Rightarrow> [99]) = [0]"
  by code_simp

text \<open>
  Claim C10, as amended. For any primary and merge file, the tracks that the track loop
  consumes are the two inputs merged by the order test on cylinder and head: at each
  turn the loaded track that comes first is taken, and when both inputs hold a track at
  the same cylinder and head the primary track is taken and the merge track is dropped.
  Every consumed track that is not excluded is written, after the block that adds
  missing sectors. Without a malformed record the loop finishes and the whole merge is
  consumed; with one it stops at the failing load, and the tracks written by then are
  those of a prefix of the merge. When the tracks of each input are in ascending order
  of cylinder and head, so are the consumed and the written tracks.
\<close>

theorem merge_takes_tracks_in_order:
  "(Malformed \<notin> set f \<and> Malformed \<notin> set fm \<longrightarrow>
      imdu_track_loop lc opts ok f (Some fm)
        = Finished
            (map (\<lambda>t. the (add_missing_sectors (LIBIMD_MAX_SECTORS_PER_TRACK lc) opts ok t))
               (filter (\<lambda>t. \<not> track_excluded lc opts t)
                  (merge_tracks (stream_tracks f) (stream_tracks fm)))))
   \<and> (Malformed \<in> set f \<or> Malformed \<in> set fm \<longrightarrow>
        (\<exists>out. imdu_track_loop lc opts ok f (Some fm) = Load_failed out))
   \<and> (\<exists>k. written_tracks (imdu_track_loop lc opts ok f (Some fm))
          = map (\<lambda>t. the (add_missing_sectors (LIBIMD_MAX_SECTORS_PER_TRACK lc) opts ok t))
              (filter (\<lambda>t. \<not> track_excluded lc opts t)
                 (take k (merge_tracks (stream_tracks f) (stream_tracks fm)))))
   \<and> (tracks_ascending (stream_tracks f) \<and> tracks_ascending (stream_tracks fm)
        \<longrightarrow> tracks_ascending (merge_tracks (stream_tracks f) (stream_tracks fm))
            \<and> tracks_ascending (written_tracks (imdu_track_loop lc opts ok f (Some fm))))
   \<and> (\<forall>p m ps' ms'. cyl p = cyl m \<and> head p = head m \<longrightarrow>
          merge_tracks (p # ps') (m # ms') = p # merge_tracks ps' ms')"
proof -
  let ?add = "add_missing_sectors (LIBIMD_MAX_SECTORS_PER_TRACK lc) opts ok"
  let ?keep = "\<lambda>t. \<not> track_excluded lc opts t"
  let ?merged = "merge_tracks (stream_tracks f) (stream_tracks fm)"
  let ?F = "\<lambda>ts. map (\<lambda>t. the (?add t)) (filter ?keep ts)"
  let ?s0 = "\<lparr>fimd = f, fmerge = Some fm,
        primary_track = zero_track (LIBIMD_MAX_SECTORS_PER_TRACK lc),
        merge_track = zero_track (LIBIMD_MAX_SECTORS_PER_TRACK lc),
        primary_eof = False, merge_eof = False, written = []\<rparr>"
  let ?run = "imdu_track_loop lc opts ok f (Some fm)"
  have wf: "merge_wf ?s0"
    by (simp add: merge_wf_def zero_track_def)
  have pend: "pending_primary ?s0 = stream_tracks f" "pending_merge ?s0 = stream_tracks fm"
    by (simp_all add: pending_primary_def pending_merge_def zero_track_def)
  have w0: "written ?s0 = []"
    by simp
  have clean: "streams_clean ?s0 \<longleftrightarrow> Malformed \<notin> set f \<and> Malformed \<notin> set fm"
    by (simp add: streams_clean_def)
  have "\<exists>k. ?run =
      (if Malformed \<notin> set f \<and> Malformed \<notin> set fm then Finished (?F ?merged)
       else Load_failed (?F (take k ?merged)))"
    using merge_loop_refines [OF wf, of lc opts ok]
    unfolding imdu_track_loop_def pend clean w0 append_Nil .
  then obtain k where run: "?run =
      (if Malformed \<notin> set f \<and> Malformed \<notin> set fm then Finished (?F ?merged)
       else Load_failed (?F (take k ?merged)))"
    by (rule exE)
  have fin: "Malformed \<notin> set f \<and> Malformed \<notin> set fm \<longrightarrow> ?run = Finished (?F ?merged)"
    using run by simp
  have fail: "Malformed \<in> set f \<or> Malformed \<in> set fm \<longrightarrow> (\<exists>out. ?run = Load_failed out)"
    using run by auto
  have "written_tracks ?run = ?F (take k ?merged) \<or> written_tracks ?run = ?F ?merged"
    using run by (simp add: written_tracks_def)
  then have "written_tracks ?run = ?F (take k ?merged)
             \<or> written_tracks ?run = ?F (take (length ?merged) ?merged)"
    by simp
  then have pre: "\<exists>k. written_tracks ?run = ?F (take k ?merged)"
    by blast
  have ord: "tracks_ascending ?merged \<and> tracks_ascending (written_tracks ?run)"
    if "tracks_ascending (stream_tracks f) \<and> tracks_ascending (stream_tracks fm)"
  proof -
    from that have "sorted (map track_pos (stream_tracks f))"
      "sorted (map track_pos (stream_tracks fm))"
      by (simp_all only: sorted_wrt_track_before)
    then have m: "sorted (map track_pos ?merged)" by (rule merge_tracks_sorted)
    from pre obtain j where j: "written_tracks ?run = ?F (take j ?merged)" by blast
    from m have "sorted (map track_pos (?F (take j ?merged)))"
      by (rule written_prefix_ascending)
    with m j show ?thesis
      by (simp only: sorted_wrt_track_before simp_thms)
  qed
  have tie: "\<forall>p m ps' ms'. cyl p = cyl m \<and> head p = head m \<longrightarrow>
            merge_tracks (p # ps') (m # ms') = p # merge_tracks ps' ms'"
    by (simp add: track_before_def)
  from fin fail pre ord tie show ?thesis by blast
qed

theorem merge_takes_tracks_in_order_witness:
  "Malformed \<notin> set (map Track example_primary_tracks)
   \<and> Malformed \<notin> set (map Track example_merge_tracks)
   \<and> tracks_ascending (stream_tracks (map Track example_primary_tracks))
   \<and> tracks_ascending (stream_tracks (map Track example_merge_tracks))
   \<and> (\<exists>out. imdu_track_loop example_consts example_imdu_opts True
               (map Track example_primary_tracks) (Some (map Track example_merge_tracks))
             = Finished out
          \<and> tracks_ascending out
          \<and> map (\<lambda>t. (cyl t, head t, sflag t ! 0)) out = [(0, 0, 1), (0, 1, 1), (1, 0, 1)])"
proof -
  let ?run = "imdu_track_loop example_consts example_imdu_opts True
               (map Track example_primary_tracks) (Some (map Track example_merge_tracks))"
  have c1: "Malformed \<notin> set (map Track example_primary_tracks)"
    and c2: "Malformed \<notin> set (map Track example_merge_tracks)"
    by auto
  have sp: "tracks_ascending (stream_tracks (map Track example_primary_tracks))"
    by code_simp
  have sm: "tracks_ascending (stream_tracks (map Track example_merge_tracks))"
    by code_simp
  note inst = merge_takes_tracks_in_order [of "map Track example_primary_tracks"
      "map Track example_merge_tracks" example_consts example_imdu_opts True]
  from inst c1 c2 obtain out where out: "?run = Finished out"
    by blast
  from inst sp sm have "tracks_ascending (written_tracks ?run)"
    by blast
  with out have so: "tracks_ascending out"
    by (simp add: written_tracks_def)
  have ev: "(case ?run of
             Finished ts \<Rightarrow> map (\<lambda>t. (cyl t, head t, sflag t ! 0)) ts
           | _ \<Rightarrow> []) = [(0, 0, 1), (0, 1, 1), (1, 0, 1)]"
    by code_simp
  with out have mp: "map (\<lambda>t. (cyl t, head t, sflag t ! 0)) out = [(0, 0, 1), (0, 1, 1), (1, 0, 1)]"
    by simp
  show ?thesis
    by (intro conjI exI [of _ out]) (fact c1 c2 sp sm out so mp)+
qed

text \<open>
  Claim C10 as stated, at an input that is not in ascending order: a primary file with a
  track at cylinder 1 followed by a track at cylinder 0, and an empty merge file. The
  tracks are written as they come, cylinder 1 first.
\<close>

theorem merge_unsorted_input_counterexample:
  "map track_pos
     (written_tracks
        (imdu_track_loop example_consts example_imdu_opts True
           (map Track example_unsorted_tracks) (Some []))) = [256, 0]
   \<and> \<not> tracks_ascending
         (written_tracks
            (imdu_track_loop example_consts example_imdu_opts True
               (map Track example_unsorted_tracks) (Some [])))"
  by code_simp

subsection \<open>Interleave analyzer\<close>

lemma round_trip_1:
  "calculate_best_interleave (generate_interleaved_map 1 1 1) = Some 1"
  "calculate_best_interleave (generate_interleaved_map 1 2 1) = Some 1"
  "calculate_best_interleave (generate_interleaved_map 1 3 1) = Some 1"
  "calculate_best_interleave (generate_interleaved_map 1 7 1) = Some 1"
  by code_simp+

lemma round_trip_10:
  "calculate_best_interleave (generate_interleaved_map 10 1 1) = Some 1"
  "calculate_best_interleave (generate_interleaved_map 10 2 1) = Some 2"
  "calculate_best_interleave (generate_interleaved_map 10 3 1) = Some 3"
  "calculate_best_interleave (generate_interleaved_map 10 7 1) = Some 7"
  by code_simp+

lemma round_trip_26:
  "calculate_best_interleave (generate_interleaved_map 26 1 1) = Some 1"
  "calculate_best_interleave (generate_interleaved_map 26 2 1) = Some 2"
  "calculate_best_interleave (generate_interleaved_map 26 3 1) = Some 3"
  "calculate_best_interleave (generate_interleaved_map 26 7 1) = Some 7"
  by code_simp+

lemma round_trip_all:
  assumes "sc = 1 \<or> sc = 10 \<or> sc = 26" and "f = 1 \<or> f = 2 \<or> f = 3 \<or> f = 7"
  shows "calculate_best_interleave (generate_interleaved_map sc f 1)
           = Some (if f < sc then f else 1)"
  using assms round_trip_1 round_trip_10 round_trip_26
  by (elim disjE) simp_all

lemma best_interleave_is_smallest_match:
  "calculate_best_interleave m = Some g \<longleftrightarrow>
     generate_interleaved_map (length m) g 1 = m \<and> 1 \<le> g \<and> g < max 2 (length m)
     \<and> (\<forall>h. 1 \<le> h \<and> h < g \<longrightarrow> generate_interleaved_map (length m) h 1 \<noteq> m)"
proof
  let ?P = "\<lambda>f. generate_interleaved_map (length m) f 1 = m"
  let ?fs = "[1 ..< max 2 (length m)]"
  assume "calculate_best_interleave m = Some g"
  then obtain i where i: "i < length ?fs" "?P (?fs ! i)" "g = ?fs ! i" "\<forall>j < i. \<not> ?P (?fs ! j)"
    unfolding calculate_best_interleave_def find_Some_iff by blast
  from i(1,3) have g: "g = 1 + i" "i < max 2 (length m) - 1" by simp_all
  have small: "generate_interleaved_map (length m) h 1 \<noteq> m" if "1 \<le> h" "h < g" for h
  proof -
    from that g have "h - 1 < i" by simp
    with i(4) have "\<not> ?P (?fs ! (h - 1))" by blast
    moreover from that g have "?fs ! (h - 1) = h" by simp
    ultimately show ?thesis by simp
  qed
  from i(2,3) g small
  show "?P g \<and> 1 \<le> g \<and> g < max 2 (length m) \<and> (\<forall>h. 1 \<le> h \<and> h < g \<longrightarrow> \<not> ?P h)"
    by simp
next
  let ?P = "\<lambda>f. generate_interleaved_map (length m) f 1 = m"
  let ?fs = "[1 ..< max 2 (length m)]"
  assume a: "?P g \<and> 1 \<le> g \<and> g < max 2 (length m) \<and> (\<forall>h. 1 \<le> h \<and> h < g \<longrightarrow> \<not> ?P h)"
  then have g1: "1 \<le> g" "g < max 2 (length m)" by simp_all
  have "length ?fs = max 2 (length m) - 1" by simp
  with g1 have i: "g - 1 < length ?fs" by arith
  from g1 have at: "?fs ! (g - 1) = g" by auto
  have before: "\<not> ?P (?fs ! j)" if "j < g - 1" for j
  proof -
    from that g1 have "?fs ! j = 1 + j" by auto
    moreover from that a have "\<not> ?P (1 + j)" by simp
    ultimately show ?thesis by simp
  qed
  from a i at before have "\<exists>i < length ?fs. ?P (?fs ! i) \<and> g = ?fs ! i \<and> (\<forall>j < i. \<not> ?P (?fs ! j))"
    by (intro exI [of _ "g - 1"]) simp
  then show "calculate_best_interleave m = Some g"
    unfolding calculate_best_interleave_def find_Some_iff .
qed

text \<open>
  Claim C2. For sector counts 1, 10 and 26 and factors 1, 2, 3 and 7, the analyzer
  applied to the generated map returns the factor, and returns 1 when the factor is not
  below the sector count. The analyzer returns a factor exactly when the generator run
  with that factor reproduces the map and no smaller factor does, so what it returns is
  the smallest factor that produces the same map, and the generator is the procedure it
  verifies with.
\<close>

theorem interleave_round_trip:
  "((sc = 1 \<or> sc = 10 \<or> sc = 26) \<and> (f = 1 \<or> f = 2 \<or> f = 3 \<or> f = 7) \<longrightarrow>
      calculate_best_interleave (generate_interleaved_map sc f 1)
        = Some (if f < sc then f else 1))
   \<and> (calculate_best_interleave m = Some g \<longleftrightarrow>
        generate_interleaved_map (length m) g 1 = m \<and> 1 \<le> g \<and> g < max 2 (length m)
        \<and> (\<forall>h. 1 \<le> h \<and> h < g \<longrightarrow> generate_interleaved_map (length m) h 1 \<noteq> m))"
  using round_trip_all [of sc f] best_interleave_is_smallest_match [of m g]
  by blast

theorem interleave_round_trip_witness:
  "calculate_best_interleave (generate_interleaved_map 10 7 1) = Some 7
   \<and> generate_interleaved_map (length (generate_interleaved_map 10 7 1)) 7 1
       = generate_interleaved_map 10 7 1
   \<and> generate_interleaved_map 10 7 1 = [1, 4, 7, 10, 3, 6, 9, 2, 5, 8]
   \<and> generate_interleaved_map 10 3 1 \<noteq> generate_interleaved_map 10 7 1
   \<and> generate_interleaved_map 1 7 1 = [1]
   \<and> calculate_best_interleave (generate_interleaved_map 1 7 1) = Some 1"
proof -
  let ?m = "generate_interleaved_map 10 7 1"
  have ev: "?m = [1, 4, 7, 10, 3, 6, 9, 2, 5, 8]"
    "generate_interleaved_map 1 7 1 = [1]"
    by code_simp+
  note inst = interleave_round_trip [of 10 7 ?m 7]
  have a: "((10::nat) = 1 \<or> (10::nat) = 10 \<or> (10::nat) = 26)
           \<and> ((7::nat) = 1 \<or> (7::nat) = 2 \<or> (7::nat) = 3 \<or> (7::nat) = 7)"
    by simp
  from inst a have "calculate_best_interleave ?m = Some (if (7::nat) < 10 then 7 else 1)"
    by blast
  then have r: "calculate_best_interleave ?m = Some 7"
    by simp
  from inst r have g: "generate_interleaved_map (length ?m) 7 1 = ?m"
    and s: "\<forall>h. 1 \<le> h \<and> h < 7 \<longrightarrow> generate_interleaved_map (length ?m) h 1 \<noteq> ?m"
    by blast+
  have len: "length ?m = 10"
    by code_simp
  from s have "generate_interleaved_map (length ?m) 3 1 \<noteq> ?m"
    by simp
  then have d: "generate_interleaved_map 10 3 1 \<noteq> ?m"
    unfolding len .
  note inst1 = interleave_round_trip [of 1 7 "[]" 0]
  have a1: "((1::nat) = 1 \<or> (1::nat) = 10 \<or> (1::nat) = 26)
           \<and> ((7::nat) = 1 \<or> (7::nat) = 2 \<or> (7::nat) = 3 \<or> (7::nat) = 7)"
    by simp
  from inst1 a1
  have "calculate_best_interleave (generate_interleaved_map 1 7 1)
          = Some (if (7::nat) < 1 then 7 else 1)"
    by blast
  then have o: "calculate_best_interleave (generate_interleaved_map 1 7 1) = Some 1"
    by simp
  show ?thesis
    by (intro conjI) (fact r g ev d o)+
qed
end
